theory Spec2Isabelle
  imports Complex_Main "HOL-Library.Multiset"
begin

section \<open>Data model\<close>

text \<open>
  The module \<^verbatim>\<open>tslearn/metrics.py\<close> works on dense numeric arrays. A time series is a
  2-D array (length by features), a dataset a 3-D array (count by length by features).
  Floating-point numbers are idealised as reals; the one non-number the wrapper can
  produce in exact arithmetic, the NaN that \<^verbatim>\<open>numpy.median\<close> returns for an empty array,
  is kept as a value of its own.
\<close>

type_synonym point = "real list"
type_synonym series = "point list"
type_synonym dataset = "series list"

datatype error = ValueError | IndexError | ShapeError | ParameterError | NumericalError

datatype npfloat = Num real | NaN

datatype raw_series = Flat "real list" | Nested "real list list"

datatype raw_dataset = Flat_rows "real list list" | Nested_rows "real list list list"

text \<open>
  Modelled from the spec: \<^verbatim>\<open>tslearn.utils.npy2d_time_series\<close> and
  \<^verbatim>\<open>tslearn.utils.npy3d_time_series_dataset\<close> are not part of the sources at hand. The
  spec describes them as the adapter that "turns arbitrary per-series input into a dense
  2-D array (length x features) and a dataset into a 3-D array (count x length x
  features)": a flat sequence of numbers is a univariate series, one feature per point.
\<close>

fun npy2d_time_series :: "raw_series \<Rightarrow> series" where
  "npy2d_time_series (Flat xs) = map (\<lambda>x. [x]) xs"
| "npy2d_time_series (Nested xss) = xss"

fun npy3d_time_series_dataset :: "raw_dataset \<Rightarrow> dataset" where
  "npy3d_time_series_dataset (Flat_rows rows) = map (\<lambda>row. map (\<lambda>x. [x]) row) rows"
| "npy3d_time_series_dataset (Nested_rows rows) = rows"

text \<open>\<^verbatim>\<open>dataset.shape\<close> of a 3-D array, read off the nested list.\<close>

definition shape3 :: "dataset \<Rightarrow> nat \<times> nat \<times> nat" where
  "shape3 ds =
     (length ds,
      (case ds of [] \<Rightarrow> 0 | s # _ \<Rightarrow> length s),
      (case ds of [] \<Rightarrow> 0 | s # _ \<Rightarrow> (case s of [] \<Rightarrow> 0 | p # _ \<Rightarrow> length p)))"

text \<open>A nested list is a 3-D array when it is rectangular.\<close>

definition is_array3 :: "dataset \<Rightarrow> bool" where
  "is_array3 ds =
     (case shape3 ds of (n_ts, sz, d) \<Rightarrow>
        list_all (\<lambda>s. length s = sz \<and> list_all (\<lambda>p. length p = d) s) ds)"

text \<open>\<^verbatim>\<open>dataset.reshape((-1, d))\<close>: the points of all series, in row-major order.\<close>

definition reshape_rows :: "dataset \<Rightarrow> point list" where
  "reshape_rows ds = concat ds"

text \<open>
  \<^verbatim>\<open>rows[sample_indices]\<close>: indexing by an array of indices; an index outside the array
  raises.
\<close>

definition take_rows :: "'a list \<Rightarrow> nat list \<Rightarrow> error + 'a list" where
  "take_rows rows idx =
     (if list_all (\<lambda>i. i < length rows) idx then Inr (map (\<lambda>i. rows ! i) idx)
      else Inl IndexError)"

section \<open>The library functions \<^verbatim>\<open>sigma_gak\<close> calls\<close>

text \<open>
  \<^verbatim>\<open>scipy.spatial.distance.pdist(X, metric="euclidean")\<close>: the distances between all
  pairs of rows \<open>i < j\<close>, in row-major order of the pairs.
\<close>

definition sqeuclidean :: "point \<Rightarrow> point \<Rightarrow> real" where
  "sqeuclidean u v = (\<Sum>(a, b) \<leftarrow> zip u v. (a - b)\<^sup>2)"

definition euclidean :: "point \<Rightarrow> point \<Rightarrow> real" where
  "euclidean u v = sqrt (sqeuclidean u v)"

fun pdist :: "point list \<Rightarrow> real list" where
  "pdist [] = []"
| "pdist (x # xs) = map (euclidean x) xs @ pdist xs"

text \<open>
  \<^verbatim>\<open>numpy.median\<close> of a 1-D array: the middle element of the sorted array, the mean of
  the two middle elements when the length is even, NaN when the array is empty.
\<close>

definition median :: "real list \<Rightarrow> npfloat" where
  "median xs =
     (let s = sort xs; n = length s in
      if n = 0 then NaN
      else if odd n then Num (s ! (n div 2))
      else Num ((s ! (n div 2 - 1) + s ! (n div 2)) / 2))"

fun npmul :: "npfloat \<Rightarrow> real \<Rightarrow> npfloat" where
  "npmul (Num x) y = Num (x * y)"
| "npmul NaN y = NaN"

text \<open>
  \<^verbatim>\<open>numpy.random.choice(a, size, replace)\<close> draws from the process-wide generator of
  \<^verbatim>\<open>numpy.random\<close>: it reads the generator's state and leaves a new one behind. A sampler
  is therefore a function of the state \<open>'g\<close> that returns the indices (or the error
  raised) together with the next state.
\<close>

type_synonym 'g sampler = "'g \<Rightarrow> nat \<Rightarrow> int \<Rightarrow> bool \<Rightarrow> (error + nat list) \<times> 'g"

subsection \<open>A concrete generator\<close>

text \<open>
  To run \<^verbatim>\<open>sigma_gak\<close> on concrete inputs the generator is given as the sequence of
  raw numbers it is going to output (an exhausted sequence outputs 0). Sampling with
  replacement reduces each raw number modulo the population size; sampling without
  replacement removes each drawn index from the pool. As \<^verbatim>\<open>numpy.random.choice\<close>
  does, the sampler raises \<^verbatim>\<open>ValueError\<close> for a negative size, for an empty population
  with a non-empty sample, and for a sample without replacement that is larger than the
  population.
\<close>

type_synonym rng = "nat list"

fun next_raw :: "rng \<Rightarrow> nat \<times> rng" where
  "next_raw [] = (0, [])"
| "next_raw (r # rs) = (r, rs)"

fun draw_replace :: "nat \<Rightarrow> nat \<Rightarrow> rng \<Rightarrow> nat list \<times> rng" where
  "draw_replace a 0 g = ([], g)"
| "draw_replace a (Suc k) g =
     (case next_raw g of (r, g1) \<Rightarrow>
        (case draw_replace a k g1 of (rest, g2) \<Rightarrow> (r mod a # rest, g2)))"

fun draw_distinct :: "nat list \<Rightarrow> nat \<Rightarrow> rng \<Rightarrow> nat list \<times> rng" where
  "draw_distinct pool 0 g = ([], g)"
| "draw_distinct pool (Suc k) g =
     (case next_raw g of (r, g1) \<Rightarrow>
        (case draw_distinct (take (r mod length pool) pool @ drop (Suc (r mod length pool)) pool) k g1
         of (rest, g2) \<Rightarrow> (pool ! (r mod length pool) # rest, g2)))"

definition np_choice :: "rng sampler" where
  "np_choice g a n replace =
     (if n < 0 then (Inl ValueError, g)
      else if a = 0 \<and> n \<noteq> 0 then (Inl ValueError, g)
      else if replace then
        (case draw_replace a (nat n) g of (idx, g') \<Rightarrow> (Inr idx, g'))
      else if int a < n then (Inl ValueError, g)
      else
        (case draw_distinct [0..<a] (nat n) g of (idx, g') \<Rightarrow> (Inr idx, g')))"

section \<open>\<^verbatim>\<open>sigma_gak\<close>\<close>

definition sigma_gak :: "'g sampler \<Rightarrow> raw_dataset \<Rightarrow> int \<Rightarrow> 'g \<Rightarrow> (error + npfloat) \<times> 'g" where
  "sigma_gak choice dataset n_samples g =
     (let ds = npy3d_time_series_dataset dataset;
          (n_ts, sz, d) = shape3 ds;
          replace = (if int (n_ts * sz) < n_samples then True else False);
          (drawn, g') = choice g (n_ts * sz) n_samples replace
      in case drawn of
           Inl e \<Rightarrow> (Inl e, g')
         | Inr sample_indices \<Rightarrow>
             (case take_rows (reshape_rows ds) sample_indices of
                Inl e \<Rightarrow> (Inl e, g')
              | Inr sampled \<Rightarrow>
                  (let dists = pdist sampled
                   in (Inr (npmul (median dists) (sqrt (real sz))), g'))))"

subsection \<open>The bandwidth estimate in the words of the specification\<close>

text \<open>
  The specification describes the estimate through the time-points of the dataset
  (series \<open>i div sz\<close>, position \<open>i mod sz\<close> for the flat index \<open>i\<close>), the Euclidean
  distance over the \<open>d\<close> features, the collection of the distances of all pairs of
  sampled points, and its median. These definitions follow those words and use none of
  the functions \<^verbatim>\<open>sigma_gak\<close> is built from; they are compared with it below.
\<close>

definition time_point :: "dataset \<Rightarrow> nat \<Rightarrow> nat \<Rightarrow> point" where
  "time_point ds sz i = ds ! (i div sz) ! (i mod sz)"

definition euclidean_distance :: "nat \<Rightarrow> point \<Rightarrow> point \<Rightarrow> real" where
  "euclidean_distance d u v = sqrt (\<Sum>k<d. (u ! k - v ! k)\<^sup>2)"

definition pairwise_distances :: "nat \<Rightarrow> point list \<Rightarrow> real multiset" where
  "pairwise_distances d pts =
     image_mset (\<lambda>(i, j). euclidean_distance d (pts ! i) (pts ! j))
       (mset_set {(i, j). i < j \<and> j < length pts})"

text \<open>
  The median, by order statistics: \<open>v\<close> is the \<open>k\<close>-th smallest element of \<open>M\<close>
  (counting from 0) when it occurs in \<open>M\<close>, at most \<open>k\<close> elements are smaller and more
  than \<open>k\<close> are not larger. The median of an odd number of values is the middle one, of
  an even number the mean of the two middle ones; no number is the median of no values.
\<close>

definition order_stat :: "real multiset \<Rightarrow> nat \<Rightarrow> real \<Rightarrow> bool" where
  "order_stat M k v =
     (v \<in># M \<and> size (filter_mset (\<lambda>x. x < v) M) \<le> k \<and> k < size (filter_mset (\<lambda>x. x \<le> v) M))"

definition is_median :: "real multiset \<Rightarrow> real \<Rightarrow> bool" where
  "is_median M m =
     (if odd (size M) then order_stat M (size M div 2) m
      else (\<exists>lo hi. order_stat M (size M div 2 - 1) lo \<and> order_stat M (size M div 2) hi \<and>
                     m = (lo + hi) / 2))"

section \<open>The DTW engine\<close>

text \<open>
  Modelled from the spec: the compiled module \<^verbatim>\<open>tslearn.cydtw\<close> (\<^verbatim>\<open>dtw\<close>,
  \<^verbatim>\<open>dtw_path\<close>, \<^verbatim>\<open>cdist_dtw\<close>) is not part of the sources at hand. The
  specification (section 4.1) gives its algorithm: a cost matrix \<open>D\<close> of
  \<open>(n + 1) \<times> (m + 1)\<close> entries with \<open>D[0][0] = 0\<close> and \<open>+\<infinity>\<close> in the rest of row 0 and
  column 0, filled for \<open>i\<close> in \<open>1..n\<close> and \<open>j\<close> in \<open>1..m\<close> with the squared Euclidean
  distance of point \<open>i - 1\<close> of \<open>s1\<close> and point \<open>j - 1\<close> of \<open>s2\<close> plus the minimum of
  \<open>D[i-1][j]\<close>, \<open>D[i][j-1]\<close> and \<open>D[i-1][j-1]\<close>; the score is \<open>sqrt (D[n][m])\<close>. A
  mismatch of the feature dimensions and a series of length zero are rejected before the
  matrix is built.
\<close>

datatype cost = Finite real | Infinite

fun cost_add :: "real \<Rightarrow> cost \<Rightarrow> cost" where
  "cost_add x (Finite c) = Finite (x + c)"
| "cost_add x Infinite = Infinite"

fun cost_le :: "cost \<Rightarrow> cost \<Rightarrow> bool" where
  "cost_le (Finite a) (Finite b) = (a \<le> b)"
| "cost_le (Finite a) Infinite = True"
| "cost_le Infinite (Finite b) = False"
| "cost_le Infinite Infinite = True"

definition cost_min :: "cost \<Rightarrow> cost \<Rightarrow> cost" where
  "cost_min a b = (if cost_le a b then a else b)"

fun is_finite :: "cost \<Rightarrow> bool" where
  "is_finite (Finite c) = True"
| "is_finite Infinite = False"

definition feature_dim :: "series \<Rightarrow> nat" where
  "feature_dim s = (case s of [] \<Rightarrow> 0 | p # _ \<Rightarrow> length p)"

definition shape_ok :: "series \<Rightarrow> series \<Rightarrow> bool" where
  "shape_ok s1 s2 = (s1 \<noteq> [] \<and> s2 \<noteq> [] \<and> feature_dim s1 = feature_dim s2)"

definition first_row :: "nat \<Rightarrow> cost list" where
  "first_row m = Finite 0 # replicate m Infinite"

text \<open>
  One row of the matrix, left to right: \<open>prev\<close> is the row above from the column to the
  left of the current one on, \<open>left\<close> the entry just computed.
\<close>

fun fill_row :: "point \<Rightarrow> series \<Rightarrow> cost list \<Rightarrow> cost \<Rightarrow> cost list" where
  "fill_row x (y # ys) (diag # up # prev) left =
     (let c = cost_add (sqeuclidean x y) (cost_min up (cost_min left diag))
      in c # fill_row x ys (up # prev) c)"
| "fill_row x ys prev left = []"

definition next_row :: "point \<Rightarrow> series \<Rightarrow> cost list \<Rightarrow> cost list" where
  "next_row x s2 prev = Infinite # fill_row x s2 prev Infinite"

fun cost_rows :: "series \<Rightarrow> series \<Rightarrow> cost list \<Rightarrow> cost list list" where
  "cost_rows [] s2 prev = []"
| "cost_rows (x # xs) s2 prev = next_row x s2 prev # cost_rows xs s2 (next_row x s2 prev)"

definition cost_matrix :: "series \<Rightarrow> series \<Rightarrow> cost list list" where
  "cost_matrix s1 s2 = first_row (length s2) # cost_rows s1 s2 (first_row (length s2))"

definition cell :: "cost list list \<Rightarrow> nat \<Rightarrow> nat \<Rightarrow> cost" where
  "cell D i j = D ! i ! j"

text \<open>
  Path reconstruction (section 4.1): from \<open>(n, m)\<close> back to \<open>(0, 0)\<close>, at each cell to the
  predecessor with the minimum cost, ties broken diagonal, then up, then left; each
  visited cell is emitted shifted by \<open>-1\<close>, and the list is reversed at the end.
\<close>

fun backtrace :: "cost list list \<Rightarrow> nat \<Rightarrow> nat \<Rightarrow> (nat \<times> nat) list" where
  "backtrace D (Suc i) (Suc j) =
     (i, j) #
     (if cost_le (cell D i j) (cell D i (Suc j)) \<and> cost_le (cell D i j) (cell D (Suc i) j)
      then backtrace D i j
      else if cost_le (cell D i (Suc j)) (cell D (Suc i) j) then backtrace D i (Suc j)
      else backtrace D (Suc i) j)"
| "backtrace D i j = []"

definition cydtw_dtw_path :: "series \<Rightarrow> series \<Rightarrow> error + ((nat \<times> nat) list \<times> real)" where
  "cydtw_dtw_path s1 s2 =
     (if \<not> shape_ok s1 s2 then Inl ShapeError
      else
        (let D = cost_matrix s1 s2 in
         case cell D (length s1) (length s2) of
           Infinite \<Rightarrow> Inl NumericalError
         | Finite c \<Rightarrow> Inr (rev (backtrace D (length s1) (length s2)), sqrt c)))"

definition cydtw_dtw :: "series \<Rightarrow> series \<Rightarrow> error + real" where
  "cydtw_dtw s1 s2 =
     (if \<not> shape_ok s1 s2 then Inl ShapeError
      else
        (case cell (cost_matrix s1 s2) (length s1) (length s2) of
           Infinite \<Rightarrow> Inl NumericalError
         | Finite c \<Rightarrow> Inr (sqrt c)))"

subsection \<open>The recurrence in the words of the specification\<close>

text \<open>
  The entry \<open>D[i][j]\<close> as the specification writes it, for comparison with the matrix
  that the engine builds.
\<close>

fun dtw_cost :: "series \<Rightarrow> series \<Rightarrow> nat \<Rightarrow> nat \<Rightarrow> cost" where
  "dtw_cost s1 s2 0 0 = Finite 0"
| "dtw_cost s1 s2 0 (Suc j) = Infinite"
| "dtw_cost s1 s2 (Suc i) 0 = Infinite"
| "dtw_cost s1 s2 (Suc i) (Suc j) =
     cost_add (sqeuclidean (s1 ! i) (s2 ! j))
       (cost_min (dtw_cost s1 s2 i (Suc j))
          (cost_min (dtw_cost s1 s2 (Suc i) j) (dtw_cost s1 s2 i j)))"

definition cost_row :: "series \<Rightarrow> series \<Rightarrow> nat \<Rightarrow> cost list" where
  "cost_row s1 s2 i = map (dtw_cost s1 s2 i) [0..<Suc (length s2)]"

definition predecessor :: "cost list list \<Rightarrow> nat \<Rightarrow> nat \<Rightarrow> nat \<times> nat" where
  "predecessor D i j =
     (if cost_le (cell D i j) (cell D i (Suc j)) \<and> cost_le (cell D i j) (cell D (Suc i) j)
      then (i, j)
      else if cost_le (cell D i (Suc j)) (cell D (Suc i) j) then (i, Suc j)
      else (Suc i, j))"

text \<open>A step of an alignment path advances the first index, the second, or both, by one.\<close>

fun path_step :: "nat \<times> nat \<Rightarrow> nat \<times> nat \<Rightarrow> bool" where
  "path_step (a, b) (c, d) =
     ((c = a + 1 \<and> d = b) \<or> (c = a \<and> d = b + 1) \<or> (c = a + 1 \<and> d = b + 1))"

section \<open>The wrappers \<^verbatim>\<open>dtw_path\<close> and \<^verbatim>\<open>dtw\<close>\<close>

definition dtw_path :: "raw_series \<Rightarrow> raw_series \<Rightarrow> error + ((nat \<times> nat) list \<times> real)" where
  "dtw_path s1 s2 = cydtw_dtw_path (npy2d_time_series s1) (npy2d_time_series s2)"

definition dtw :: "raw_series \<Rightarrow> raw_series \<Rightarrow> error + real" where
  "dtw s1 s2 = cydtw_dtw (npy2d_time_series s1) (npy2d_time_series s2)"

section \<open>The GAK engine\<close>

text \<open>
  Modelled from the spec: the compiled module \<^verbatim>\<open>tslearn.cygak\<close> (\<^verbatim>\<open>normalized_gak\<close>,
  \<^verbatim>\<open>cdist_gak\<close>) is not part of the sources at hand. The specification (section 4.3)
  gives the local kernel \<open>\<kappa>(x, y) = exp (- \<parallel>x - y\<parallel>\<^sup>2 / (2 \<sigma>\<^sup>2)) / (2 - exp (- \<parallel>x - y\<parallel>\<^sup>2 / (2 \<sigma>\<^sup>2)))\<close>,
  the grid \<open>K[0][0] = 1\<close>, \<open>K[i][0] = K[0][j] = 0\<close>, each further cell the sum of its three
  predecessors times \<open>\<kappa>\<close>, the raw value \<open>K[n][m]\<close> and the normalisation
  \<open>K(s1, s2) / sqrt (K(s1, s1) \<cdot> K(s2, s2))\<close>; \<open>\<sigma> \<le> 0\<close> and a mismatch of shapes are
  rejected.

  The formula of section 4.3 also divides every cell by 3. The values that the docstrings
  of \<^verbatim>\<open>gak\<close> and \<^verbatim>\<open>cdist_gak\<close> in \<^verbatim>\<open>metrics.py\<close> give (0.839..., 0.273..., 0.656...;
  the first two are repeated in section 8 of the specification) are those of the
  recurrence without that division; with it they would be about 0.767, 0.180 and 0.649.
  The source decides: the cells are not divided by 3.
\<close>

definition local_kernel :: "real \<Rightarrow> point \<Rightarrow> point \<Rightarrow> real" where
  "local_kernel sigma x y =
     exp (- sqeuclidean x y / (2 * sigma\<^sup>2)) / (2 - exp (- sqeuclidean x y / (2 * sigma\<^sup>2)))"

fun gak_grid :: "real \<Rightarrow> series \<Rightarrow> series \<Rightarrow> nat \<Rightarrow> nat \<Rightarrow> real" where
  "gak_grid sigma s1 s2 0 0 = 1"
| "gak_grid sigma s1 s2 0 (Suc j) = 0"
| "gak_grid sigma s1 s2 (Suc i) 0 = 0"
| "gak_grid sigma s1 s2 (Suc i) (Suc j) =
     (gak_grid sigma s1 s2 i (Suc j) + gak_grid sigma s1 s2 (Suc i) j + gak_grid sigma s1 s2 i j)
       * local_kernel sigma (s1 ! i) (s2 ! j)"

definition raw_gak :: "series \<Rightarrow> series \<Rightarrow> real \<Rightarrow> real" where
  "raw_gak s1 s2 sigma = gak_grid sigma s1 s2 (length s1) (length s2)"

text \<open>
  Modelled from the spec: section 7 asks that an underflow which the log domain does not
  absorb be surfaced as a \<^verbatim>\<open>NumericalError\<close> and not clamped. Numbers are reals here, and
  the log-domain evaluation of section 4.3 changes nothing over the reals. The range of a
  double matters in one place: the normalised value is exponentiated at the end, and a
  value of at most \<open>1 / 2 ^ 1075\<close> is no positive double, it rounds to 0.0. Rounding within
  the range of a double is not modelled.
\<close>

definition double_underflow :: "real \<Rightarrow> bool" where
  "double_underflow v = (v \<le> 1 / 2 ^ 1075)"

definition cygak_normalized_gak :: "series \<Rightarrow> series \<Rightarrow> real \<Rightarrow> error + real" where
  "cygak_normalized_gak s1 s2 sigma =
     (if sigma \<le> 0 then Inl ParameterError
      else if \<not> shape_ok s1 s2 then Inl ShapeError
      else if double_underflow
                (raw_gak s1 s2 sigma / sqrt (raw_gak s1 s1 sigma * raw_gak s2 s2 sigma))
      then Inl NumericalError
      else Inr (raw_gak s1 s2 sigma / sqrt (raw_gak s1 s1 sigma * raw_gak s2 s2 sigma)))"

section \<open>The cross-similarity engines\<close>

text \<open>
  Modelled from the spec: \<^verbatim>\<open>cydtw.cdist_dtw\<close> and \<^verbatim>\<open>cygak.cdist_gak\<close> are not part of
  the sources at hand. The specification (section 4.4): in self-similarity mode only the
  upper triangle \<open>i \<le> j\<close> is computed by the pairwise engine, it is mirrored into the
  lower triangle and the diagonal is set analytically, to 0 for the DTW distance and to 1
  for the normalised kernel; otherwise every cell is computed independently, row-major.
  The first error of a pair aborts the whole batch.
\<close>

type_synonym matrix = "real list list"

fun sequence :: "(error + 'a) list \<Rightarrow> error + 'a list" where
  "sequence [] = Inr []"
| "sequence (Inl e # rs) = Inl e"
| "sequence (Inr v # rs) = (case sequence rs of Inl e \<Rightarrow> Inl e | Inr vs \<Rightarrow> Inr (v # vs))"

definition cross_matrix :: "(series \<Rightarrow> series \<Rightarrow> error + real) \<Rightarrow> dataset \<Rightarrow> dataset \<Rightarrow> error + matrix" where
  "cross_matrix pair ds1 ds2 = sequence (map (\<lambda>a. sequence (map (pair a) ds2)) ds1)"

definition upper_triangle :: "(series \<Rightarrow> series \<Rightarrow> error + real) \<Rightarrow> dataset \<Rightarrow> error + matrix" where
  "upper_triangle pair ds =
     sequence (map (\<lambda>i. sequence (map (\<lambda>j. pair (ds ! i) (ds ! j)) [i..<length ds])) [0..<length ds])"

definition mirrored :: "real \<Rightarrow> nat \<Rightarrow> matrix \<Rightarrow> matrix" where
  "mirrored diag n U =
     map (\<lambda>i. map (\<lambda>j. if i = j then diag else if i < j then U ! i ! (j - i) else U ! j ! (i - j))
                [0..<n]) [0..<n]"

definition self_matrix :: "(series \<Rightarrow> series \<Rightarrow> error + real) \<Rightarrow> real \<Rightarrow> dataset \<Rightarrow> error + matrix" where
  "self_matrix pair diag ds =
     (case upper_triangle pair ds of Inl e \<Rightarrow> Inl e | Inr U \<Rightarrow> Inr (mirrored diag (length ds) U))"

definition cydtw_cdist_dtw :: "dataset \<Rightarrow> dataset \<Rightarrow> bool \<Rightarrow> error + matrix" where
  "cydtw_cdist_dtw dataset1 dataset2 self_similarity =
     (if self_similarity then self_matrix cydtw_dtw 0 dataset1
      else cross_matrix cydtw_dtw dataset1 dataset2)"

definition cygak_cdist_gak :: "dataset \<Rightarrow> dataset \<Rightarrow> real \<Rightarrow> bool \<Rightarrow> error + matrix" where
  "cygak_cdist_gak dataset1 dataset2 sigma self_similarity =
     (if self_similarity then self_matrix (\<lambda>a b. cygak_normalized_gak a b sigma) 1 dataset1
      else cross_matrix (\<lambda>a b. cygak_normalized_gak a b sigma) dataset1 dataset2)"

section \<open>The remaining wrappers\<close>

text \<open>
  \<^verbatim>\<open>cdist_dtw\<close>, \<^verbatim>\<open>cdist_gak\<close>, \<^verbatim>\<open>lr_dtw\<close> and \<^verbatim>\<open>lr_dtw_path\<close> take the compiled
  function they call as their first argument, so that what the wrapper itself does can be
  stated for every engine. \<^verbatim>\<open>dataset2=None\<close> is \<open>None\<close>.
\<close>

definition cdist_dtw :: "(dataset \<Rightarrow> dataset \<Rightarrow> bool \<Rightarrow> 'r) \<Rightarrow> raw_dataset \<Rightarrow> raw_dataset option \<Rightarrow> 'r" where
  "cdist_dtw cydtw_cdist dataset1 dataset2 =
     (case dataset2 of
        None \<Rightarrow>
          cydtw_cdist (npy3d_time_series_dataset dataset1) (npy3d_time_series_dataset dataset1) True
      | Some other \<Rightarrow>
          cydtw_cdist (npy3d_time_series_dataset dataset1) (npy3d_time_series_dataset other) False)"

definition cdist_gak :: "(dataset \<Rightarrow> dataset \<Rightarrow> real \<Rightarrow> bool \<Rightarrow> 'r) \<Rightarrow> raw_dataset \<Rightarrow> raw_dataset option \<Rightarrow> real \<Rightarrow> 'r" where
  "cdist_gak cygak_cdist dataset1 dataset2 sigma =
     (case dataset2 of
        None \<Rightarrow>
          cygak_cdist (npy3d_time_series_dataset dataset1) (npy3d_time_series_dataset dataset1)
            sigma True
      | Some other \<Rightarrow>
          cygak_cdist (npy3d_time_series_dataset dataset1) (npy3d_time_series_dataset other)
            sigma False)"

definition gak :: "raw_series \<Rightarrow> raw_series \<Rightarrow> real \<Rightarrow> error + real" where
  "gak s1 s2 sigma = cygak_normalized_gak (npy2d_time_series s1) (npy2d_time_series s2) sigma"

text \<open>
  \<^verbatim>\<open>cylrdtw.lr_dtw\<close> returns the pair of the score and the probability matrix;
  \<^verbatim>\<open>lr_dtw\<close> takes its first component, \<^verbatim>\<open>lr_dtw_path\<close> unpacks it and hands the
  matrix to \<^verbatim>\<open>cylrdtw.lr_dtw_backtrace\<close>.
\<close>

definition lr_dtw :: "(series \<Rightarrow> series \<Rightarrow> real \<Rightarrow> error + (real \<times> 'p)) \<Rightarrow> raw_series \<Rightarrow> raw_series \<Rightarrow> real \<Rightarrow> error + real" where
  "lr_dtw cylrdtw_lr_dtw s1 s2 gamma =
     (case cylrdtw_lr_dtw (npy2d_time_series s1) (npy2d_time_series s2) gamma of
        Inl e \<Rightarrow> Inl e
      | Inr result \<Rightarrow> Inr (fst result))"

definition lr_dtw_path :: "(series \<Rightarrow> series \<Rightarrow> real \<Rightarrow> error + (real \<times> 'p)) \<Rightarrow> ('p \<Rightarrow> error + 'a) \<Rightarrow> raw_series \<Rightarrow> raw_series \<Rightarrow> real \<Rightarrow> error + ('a \<times> real)" where
  "lr_dtw_path cylrdtw_lr_dtw cylrdtw_lr_dtw_backtrace s1 s2 gamma =
     (case cylrdtw_lr_dtw (npy2d_time_series s1) (npy2d_time_series s2) gamma of
        Inl e \<Rightarrow> Inl e
      | Inr (sim, probas) \<Rightarrow>
          (case cylrdtw_lr_dtw_backtrace probas of
             Inl e \<Rightarrow> Inl e
           | Inr path \<Rightarrow> Inr (path, sim)))"

section \<open>Positive semi-definite kernels\<close>

text \<open>
  The notions used to bound the normalised kernel: they belong to the proof, not to the
  program.
\<close>

text \<open>
  A kernel \<open>k\<close> is positive semi-definite when every quadratic form
  \<open>\<Sum>\<^sub>i\<^sub>j c\<^sub>i c\<^sub>j k x\<^sub>i x\<^sub>j\<close> over finitely many weighted points is non-negative. A kernel is a
  positive factor when multiplying by it keeps every such kernel positive semi-definite.
\<close>

definition quad_form :: "('a \<Rightarrow> 'a \<Rightarrow> real) \<Rightarrow> (real \<times> 'a) list \<Rightarrow> real" where
  "quad_form k zs = (\<Sum>(c, x) \<leftarrow> zs. \<Sum>(d, y) \<leftarrow> zs. c * d * k x y)"

definition psd :: "('a \<Rightarrow> 'a \<Rightarrow> real) \<Rightarrow> bool" where
  "psd k = (\<forall>zs. 0 \<le> quad_form k zs)"

definition psd_factor :: "('a \<Rightarrow> 'a \<Rightarrow> real) \<Rightarrow> bool" where
  "psd_factor k = (\<forall>k1. psd k1 \<longrightarrow> psd (\<lambda>x y. k1 x y * k x y))"

text \<open>
  The Gaussian of two points, written through squared norms and the inner product (it is
  \<open>exp (- \<parallel>a - b\<parallel>\<^sup>2 / (2 \<sigma>\<^sup>2))\<close> for points of equal length), and the kernel
  \<open>\<chi> = g / 2\<close>, for which \<open>\<kappa> = \<chi> / (1 - \<chi>)\<close>.
\<close>

definition coord :: "nat \<Rightarrow> point \<Rightarrow> real" where
  "coord t a = (if t < length a then a ! t else 0)"

definition inner_prod :: "point \<Rightarrow> point \<Rightarrow> real" where
  "inner_prod a b = (\<Sum>(s, t) \<leftarrow> zip a b. s * t)"

definition norm_sq :: "point \<Rightarrow> real" where
  "norm_sq a = (\<Sum>s \<leftarrow> a. s\<^sup>2)"

definition gauss :: "real \<Rightarrow> point \<Rightarrow> point \<Rightarrow> real" where
  "gauss sigma a b = exp (- (norm_sq a + norm_sq b - 2 * inner_prod a b) / (2 * sigma\<^sup>2))"

definition chi :: "real \<Rightarrow> point \<Rightarrow> point \<Rightarrow> real" where
  "chi sigma a b = gauss sigma a b / 2"

text \<open>
  The sum, over all pairs of stretchings of \<open>x\<close> and of \<open>y\<close> to the common length \<open>l\<close>,
  of the products of \<open>\<chi>\<close> along the pair. Summed over \<open>l\<close> it gives the entry of the GAK
  grid.
\<close>

fun stretch_sum :: "real \<Rightarrow> nat \<Rightarrow> series \<Rightarrow> series \<Rightarrow> real" where
  "stretch_sum sigma 0 x y = (if x = [] \<and> y = [] then 1 else 0)"
| "stretch_sum sigma (Suc l) x y =
     (if x = [] \<or> y = [] then 0
      else chi sigma (last x) (last y) *
           (stretch_sum sigma l x y + stretch_sum sigma l (butlast x) y +
            stretch_sum sigma l x (butlast y) + stretch_sum sigma l (butlast x) (butlast y)))"


section \<open>Rational bounds of the grid\<close>

text \<open>
  The grid of the recurrence of the GAK for any local kernel \<open>k\<close>; the grid of the engine
  is the one of \<^const>\<open>local_kernel\<close>. A kernel between two others has its grid between
  theirs, which bounds the grid of the engine by grids that are computed in the rationals.
\<close>

fun kernel_grid :: "(point \<Rightarrow> point \<Rightarrow> real) \<Rightarrow> series \<Rightarrow> series \<Rightarrow> nat \<Rightarrow> nat \<Rightarrow> real" where
  "kernel_grid k s1 s2 0 0 = 1"
| "kernel_grid k s1 s2 0 (Suc j) = 0"
| "kernel_grid k s1 s2 (Suc i) 0 = 0"
| "kernel_grid k s1 s2 (Suc i) (Suc j) =
     (kernel_grid k s1 s2 i (Suc j) + kernel_grid k s1 s2 (Suc i) j + kernel_grid k s1 s2 i j)
       * k (s1 ! i) (s2 ! j)"

text \<open>
  Bounds of the local kernel for \<open>\<sigma> = 2\<close>, to five decimals, at the squared distances
  0, 1, 4 and 9 that occur in the examples of the docstrings of \<^verbatim>\<open>gak\<close> and
  \<^verbatim>\<open>cdist_gak\<close>; at any other distance the bounds are 0 and 1.
\<close>

definition kappa_lo :: "real \<Rightarrow> real" where
  "kappa_lo q = (if q = 0 then 1 else if q = 1 then 78970 / 100000 else if q = 4 then 43526 / 100000
                 else if q = 9 then 19378 / 100000 else 0)"

definition kappa_hi :: "real \<Rightarrow> real" where
  "kappa_hi q = (if q = 0 then 1 else if q = 1 then 78971 / 100000 else if q = 4 then 43527 / 100000
                 else if q = 9 then 19379 / 100000 else 1)"


section \<open>Properties of \<^verbatim>\<open>sigma_gak\<close>\<close>

lemma concat_nth_rect:
  "list_all (\<lambda>s. length s = sz) ds \<Longrightarrow> i < length ds * sz \<Longrightarrow>
   concat ds ! i = ds ! (i div sz) ! (i mod sz)"
proof (induction ds arbitrary: i)
  case Nil
  then show ?case by simp
next
  case (Cons s ds)
  show ?case
  proof (cases "i < sz")
    case True
    with Cons.prems show ?thesis by (simp add: nth_append)
  next
    case False
    then have ge: "sz \<le> i" by simp
    from Cons.prems have sz_pos: "0 < sz" by (cases sz) auto
    have "(i - sz) < length ds * sz" using Cons.prems ge by simp
    with Cons have IH: "concat ds ! (i - sz) = ds ! ((i - sz) div sz) ! ((i - sz) mod sz)" by simp
    have d: "i div sz = Suc ((i - sz) div sz)" using ge sz_pos
      by (simp add: le_div_geq)
    have m: "i mod sz = (i - sz) mod sz" using ge by (simp add: le_mod_geq)
    show ?thesis using Cons.prems False IH d m by (simp add: nth_append)
  qed
qed

lemma length_concat_rect:
  "list_all (\<lambda>s. length s = sz) ds \<Longrightarrow> length (concat ds) = length ds * sz"
  by (induction ds) auto

lemma sum_list_zip_nth:
  "length u = d \<Longrightarrow> length v = d \<Longrightarrow> (\<Sum>(a, b) \<leftarrow> zip u v. f a b) = (\<Sum>k<d. f (u ! k) (v ! k))"
proof -
  assume a: "length u = d" "length v = d"
  have "(\<Sum>(a, b) \<leftarrow> zip u v. f a b) = (\<Sum>k = 0..<length (zip u v). map (\<lambda>(a, b). f a b) (zip u v) ! k)"
    by (simp add: sum_list_sum_nth)
  also have "\<dots> = (\<Sum>k = 0..<d. f (u ! k) (v ! k))"
    using a by (intro sum.cong) auto
  finally show ?thesis by (simp add: lessThan_atLeast0)
qed

lemma euclidean_eq:
  "length u = d \<Longrightarrow> length v = d \<Longrightarrow> euclidean u v = euclidean_distance d u v"
  by (simp add: euclidean_def sqeuclidean_def euclidean_distance_def sum_list_zip_nth)

lemma pairs_Suc:
  "{(i, j). i < j \<and> j < Suc n} =
     (\<lambda>j. (0, Suc j)) ` {..<n} \<union> (\<lambda>(i, j). (Suc i, Suc j)) ` {(i, j). i < j \<and> j < n}"
  (is "?L = ?A \<union> ?B")
proof (rule set_eqI)
  fix p :: "nat \<times> nat"
  obtain i j where p: "p = (i, j)" by (cases p)
  show "p \<in> ?L \<longleftrightarrow> p \<in> ?A \<union> ?B"
  proof (cases i)
    case 0
    then show ?thesis using p by (cases j) auto
  next
    case (Suc i')
    then show ?thesis using p by (cases j) (auto simp: image_iff)
  qed
qed

lemma finite_pairs: "finite {(i, j). i < j \<and> j < (n::nat)}"
  by (rule finite_subset [of _ "{..<n} \<times> {..<n}"]) auto

lemma mset_pdist:
  "mset (pdist ps) =
     image_mset (\<lambda>(i, j). euclidean (ps ! i) (ps ! j)) (mset_set {(i, j). i < j \<and> j < length ps})"
proof (induction ps)
  case Nil
  then show ?case by simp
next
  case (Cons x xs)
  let ?n = "length xs"
  let ?A = "(\<lambda>j. (0::nat, Suc j)) ` {..<?n}"
  let ?P = "{(i, j). i < j \<and> j < ?n}"
  let ?B = "(\<lambda>(i, j). (Suc i, Suc j)) ` ?P"
  let ?f = "\<lambda>(i, j). euclidean ((x # xs) ! i) ((x # xs) ! j)"
  have disj: "?A \<inter> ?B = {}" by auto
  have fin: "finite ?A" "finite ?B" using finite_pairs [of ?n] by auto
  have injA: "inj_on (\<lambda>j. (0::nat, Suc j)) {..<?n}" by (auto simp: inj_on_def)
  have injB: "inj_on (\<lambda>(i, j). (Suc i, Suc j)) ?P" by (auto simp: inj_on_def)
  have "mset_set {(i, j). i < j \<and> j < length (x # xs)} = mset_set ?A + mset_set ?B"
    using disj fin by (simp add: pairs_Suc mset_set_Union)
  also have "mset_set ?A = image_mset (\<lambda>j. (0::nat, Suc j)) (mset_set {..<?n})"
    using injA by (simp add: image_mset_mset_set)
  also have "mset_set ?B = image_mset (\<lambda>(i, j). (Suc i, Suc j)) (mset_set ?P)"
    using injB by (simp add: image_mset_mset_set)
  finally have split: "mset_set {(i, j). i < j \<and> j < length (x # xs)} =
      image_mset (\<lambda>j. (0::nat, Suc j)) (mset_set {..<?n}) +
      image_mset (\<lambda>(i, j). (Suc i, Suc j)) (mset_set ?P)" .
  have A: "image_mset ?f (image_mset (\<lambda>j. (0::nat, Suc j)) (mset_set {..<?n})) = mset (map (euclidean x) xs)"
  proof -
    have "mset (map (euclidean x) xs) = image_mset (euclidean x) (mset xs)" by simp
    also have "mset xs = image_mset (\<lambda>j. xs ! j) (mset_set {..<?n})"
      by (metis map_nth mset_map mset_set_upto_eq_mset_upto)
    finally show ?thesis by (simp add: image_mset.compositionality comp_def)
  qed
  have B: "image_mset ?f (image_mset (\<lambda>(i, j). (Suc i, Suc j)) (mset_set ?P)) = mset (pdist xs)"
    by (simp add: Cons.IH image_mset.compositionality comp_def case_prod_unfold)
  show ?case
    unfolding split by (simp add: A B del: length_Cons)
qed

lemma order_stat_unique:
  assumes "order_stat M k v" "order_stat M k w"
  shows "v = w"
proof -
  have *: False if vw: "v < w" and a: "order_stat M k v" and b: "order_stat M k w" for v w
  proof -
    have "filter_mset (\<lambda>x. x \<le> v) M \<subseteq># filter_mset (\<lambda>x. x < w) M"
      using vw by (intro filter_mset_mono_strong) auto
    then have "size (filter_mset (\<lambda>x. x \<le> v) M) \<le> size (filter_mset (\<lambda>x. x < w) M)"
      by (rule size_mset_mono)
    with a b show False by (simp add: order_stat_def)
  qed
  show ?thesis
    using * [of v w] * [of w v] assms by (cases v w rule: linorder_cases) auto
qed

lemma is_median_unique:
  assumes "is_median M m" "is_median M m'"
  shows "m = m'"
proof (cases "odd (size M)")
  case True
  with assms show ?thesis by (auto simp: is_median_def dest: order_stat_unique)
next
  case False
  with assms obtain lo hi lo' hi' where
    "order_stat M (size M div 2 - 1) lo" "order_stat M (size M div 2) hi" "m = (lo + hi) / 2"
    "order_stat M (size M div 2 - 1) lo'" "order_stat M (size M div 2) hi'" "m' = (lo' + hi') / 2"
    by (auto simp: is_median_def)
  then show ?thesis using order_stat_unique by blast
qed

lemma is_median_empty: "\<not> is_median {#} m"
  by (simp add: is_median_def order_stat_def)

lemma sorted_order_stat:
  assumes "sorted s" "k < length s"
  shows "order_stat (mset s) k (s ! k)"
proof -
  let ?v = "s ! k"
  have split: "s = take k s @ drop k s" by simp
  have ge: "?v \<le> x" if "x \<in> set (drop k s)" for x
  proof -
    from that obtain i where "i < length (drop k s)" "x = drop k s ! i"
      by (auto simp: in_set_conv_nth)
    then have "x = s ! (k + i)" "k + i < length s" using assms(2) by simp_all
    then show ?thesis using assms(1) by (simp add: sorted_nth_mono)
  qed
  have le: "x \<le> ?v" if "x \<in> set (take (Suc k) s)" for x
  proof -
    from that obtain i where "i < length (take (Suc k) s)" "x = take (Suc k) s ! i"
      by (auto simp: in_set_conv_nth)
    then have "x = s ! i" "i \<le> k" using assms(2) by simp_all
    then show ?thesis using assms by (simp add: sorted_nth_mono)
  qed
  have "filter (\<lambda>x. x < ?v) (drop k s) = []"
    using ge by (fastforce simp: filter_empty_conv)
  then have "filter (\<lambda>x. x < ?v) s = filter (\<lambda>x. x < ?v) (take k s)"
    by (subst split) (simp del: append_take_drop_id)
  then have "length (filter (\<lambda>x. x < ?v) s) \<le> length (take k s)"
    by (simp del: length_take)
  then have lower: "size (filter_mset (\<lambda>x. x < ?v) (mset s)) \<le> k"
    using assms(2) by (simp flip: mset_filter)
  have "filter (\<lambda>x. x \<le> ?v) (take (Suc k) s) = take (Suc k) s"
    using le by (simp add: filter_id_conv)
  moreover have "s = take (Suc k) s @ drop (Suc k) s" by simp
  ultimately have "filter (\<lambda>x. x \<le> ?v) s = take (Suc k) s @ filter (\<lambda>x. x \<le> ?v) (drop (Suc k) s)"
    by (metis filter_append)
  then have "Suc k \<le> length (filter (\<lambda>x. x \<le> ?v) s)"
    using assms(2) by simp
  then have upper: "k < size (filter_mset (\<lambda>x. x \<le> ?v) (mset s))"
    by (simp flip: mset_filter)
  show ?thesis
    using lower upper assms(2) by (simp add: order_stat_def)
qed

lemma median_is_median:
  assumes "xs \<noteq> []"
  shows "\<exists>m. median xs = Num m \<and> is_median (mset xs) m"
proof -
  let ?s = "sort xs" and ?n = "length xs"
  have s: "sorted ?s" "mset ?s = mset xs" "length ?s = ?n" by simp_all
  have n: "0 < ?n" using assms by simp
  have ne: "?s \<noteq> []" using assms by (metis length_0_conv length_sort)
  have os: "order_stat (mset xs) k (?s ! k)" if "k < ?n" for k
    using sorted_order_stat [of ?s k] that s by simp
  show ?thesis
  proof (cases "odd ?n")
    case True
    then have "median xs = Num (?s ! (?n div 2))" using ne by (simp add: median_def Let_def)
    moreover have "is_median (mset xs) (?s ! (?n div 2))"
      using True n os [of "?n div 2"] by (simp add: is_median_def)
    ultimately show ?thesis by blast
  next
    case False
    have "?n \<noteq> 1" using False by auto
    then have two: "2 \<le> ?n" using n by linarith
    then have k: "?n div 2 - 1 < ?n" "?n div 2 < ?n" by simp_all
    have "median xs = Num ((?s ! (?n div 2 - 1) + ?s ! (?n div 2)) / 2)"
      using False ne by (simp add: median_def Let_def)
    moreover have "is_median (mset xs) ((?s ! (?n div 2 - 1) + ?s ! (?n div 2)) / 2)"
      using False os [OF k(1)] os [OF k(2)] by (auto simp: is_median_def)
    ultimately show ?thesis by blast
  qed
qed

lemma pdist_Nil_iff: "pdist pts = [] \<longleftrightarrow> length pts < 2"
  by (cases pts; cases "tl pts") auto

lemma is_array3_rows:
  assumes "is_array3 ds" "shape3 ds = (n_ts, sz, d)"
  shows "list_all (\<lambda>s. length s = sz) ds"
    and "length ds = n_ts"
    and "list_all (\<lambda>s. list_all (\<lambda>p. length p = d) s) ds"
  using assms by (auto simp: is_array3_def shape3_def list_all_iff)

lemma time_point_length:
  assumes "is_array3 ds" "shape3 ds = (n_ts, sz, d)" "i < n_ts * sz"
  shows "length (time_point ds sz i) = d"
proof -
  have sz_pos: "0 < sz" using assms(3) by (cases sz) auto
  have a: "i div sz < length ds"
    using assms is_array3_rows(2) [OF assms(1,2)] sz_pos
    by (simp add: less_mult_imp_div_less)
  have b: "i mod sz < length (ds ! (i div sz))"
    using a is_array3_rows(1) [OF assms(1,2)] sz_pos by (simp add: list_all_length)
  have "list_all (\<lambda>p. length p = d) (ds ! (i div sz))"
    using a is_array3_rows(3) [OF assms(1,2)] by (simp add: list_all_length)
  then show ?thesis using b by (simp add: list_all_length time_point_def)
qed

text \<open>
  What \<^verbatim>\<open>sigma_gak\<close> computes once the sampler has returned in-range indices, and
  the distances of \<^verbatim>\<open>pdist\<close> as the collection of all pairwise distances.
\<close>

lemma sigma_gak_sampled:
  assumes ds: "ds = npy3d_time_series_dataset dataset"
    and arr: "is_array3 ds"
    and shape: "shape3 ds = (n_ts, sz, d)"
    and draw: "choice g (n_ts * sz) n_samples (int (n_ts * sz) < n_samples) = (Inr idx, g')"
    and range: "list_all (\<lambda>i. i < n_ts * sz) idx"
  shows "sigma_gak choice dataset n_samples g =
           (Inr (npmul (median (pdist (map (time_point ds sz) idx))) (sqrt (real sz))), g')"
    and "mset (pdist (map (time_point ds sz) idx)) =
           pairwise_distances d (map (time_point ds sz) idx)"
proof -
  let ?pts = "map (time_point ds sz) idx"
  have rows: "list_all (\<lambda>s. length s = sz) ds" and n: "length ds = n_ts"
    using is_array3_rows [OF arr shape] by simp_all
  have len: "length (reshape_rows ds) = n_ts * sz"
    using rows n by (simp add: reshape_rows_def length_concat_rect)
  have sampled: "take_rows (reshape_rows ds) idx = Inr ?pts"
  proof -
    have "map (\<lambda>i. reshape_rows ds ! i) idx = ?pts"
      using range rows n
      by (intro map_cong) (auto simp: list_all_iff reshape_rows_def time_point_def concat_nth_rect)
    then show ?thesis using range len by (simp add: take_rows_def)
  qed
  have dim: "length (time_point ds sz (idx ! k)) = d" if "k < length idx" for k
    using that range time_point_length [OF arr shape] by (simp add: list_all_length)
  show "mset (pdist ?pts) = pairwise_distances d ?pts"
    unfolding mset_pdist pairwise_distances_def
    by (intro image_mset_cong) (auto simp: finite_pairs euclidean_eq dim)
  show "sigma_gak choice dataset n_samples g =
           (Inr (npmul (median (pdist ?pts)) (sqrt (real sz))), g')"
  proof (cases "int (n_ts * sz) < n_samples")
    case True
    with draw sampled shape ds show ?thesis by (simp add: sigma_gak_def)
  next
    case False
    with draw sampled shape ds show ?thesis by (simp add: sigma_gak_def)
  qed
qed

text \<open>
  Claim C3, as amended. For a dataset of shape \<open>(n_ts, sz, d)\<close>, \<^verbatim>\<open>sigma_gak\<close> asks the
  sampler for \<open>n_samples\<close> indices into the \<open>n_ts * sz\<close> time-points of the dataset, with
  replacement exactly when \<open>n_ts * sz < n_samples\<close>. For \<open>n_samples \<ge> 2\<close> it returns the
  number \<open>m * sqrt sz\<close>, where \<open>m\<close> is the median of all pairwise Euclidean distances
  among the sampled time-points. For \<open>n_samples = 1\<close> there is no pair, hence no median, and
  it returns NaN.
\<close>

theorem sigma_gak_spec:
  assumes pos: "0 < n_samples"
    and ds: "ds = npy3d_time_series_dataset dataset"
    and arr: "is_array3 ds"
    and shape: "shape3 ds = (n_ts, sz, d)"
    and draw: "choice g (n_ts * sz) n_samples (int (n_ts * sz) < n_samples) = (Inr idx, g')"
    and range: "list_all (\<lambda>i. i < n_ts * sz) idx"
    and count: "length idx = nat n_samples"
  shows "(2 \<le> n_samples \<longrightarrow>
            (\<exists>m. is_median (pairwise_distances d (map (time_point ds sz) idx)) m \<and>
                 sigma_gak choice dataset n_samples g = (Inr (Num (m * sqrt (real sz))), g'))) \<and>
         (n_samples = 1 \<longrightarrow>
            pairwise_distances d (map (time_point ds sz) idx) = {#} \<and>
            sigma_gak choice dataset n_samples g = (Inr NaN, g'))"
proof (intro conjI impI)
  let ?pts = "map (time_point ds sz) idx"
  note val = sigma_gak_sampled(1) [where choice = choice and g = g and n_ts = n_ts and sz = sz
      and n_samples = n_samples, OF ds arr shape draw range]
  note dists = sigma_gak_sampled(2) [where choice = choice and g = g and n_ts = n_ts and sz = sz
      and n_samples = n_samples, OF ds arr shape draw range]
  {
    assume "2 \<le> n_samples"
    then have "\<not> length ?pts < 2" using count by simp
    then have "pdist ?pts \<noteq> []" by (simp add: pdist_Nil_iff)
    from median_is_median [OF this] obtain m
      where m: "median (pdist ?pts) = Num m" "is_median (mset (pdist ?pts)) m" by blast
    then show "\<exists>m. is_median (pairwise_distances d ?pts) m \<and>
        sigma_gak choice dataset n_samples g = (Inr (Num (m * sqrt (real sz))), g')"
      using val dists by auto
  }
  {
    assume "n_samples = 1"
    then have "length ?pts < 2" using count by simp
    then have e: "pdist ?pts = []" by (simp add: pdist_Nil_iff)
    then show "pairwise_distances d ?pts = {#}" using dists by simp
    show "sigma_gak choice dataset n_samples g = (Inr NaN, g')"
      using val e by (simp add: median_def)
  }
qed

lemmas sigma_gak_eval =
  sigma_gak_def shape3_def np_choice_def take_rows_def reshape_rows_def euclidean_def
  sqeuclidean_def median_def numeral_2_eq_2

lemma np_choice_example:
  "np_choice [0, 0, Suc 0] (Suc (Suc (Suc (Suc 0)))) 3 False = (Inr [0, 1, 3], [])"
  by code_simp

text \<open>
  Two series of length two, three samples: the distances are 3, 9 and 6, their median is
  6, and the bandwidth is \<open>6 * sqrt 2\<close>.
\<close>

lemma sigma_gak_example:
  "sigma_gak np_choice (Flat_rows [[0, 3], [4, 9]]) 3 [0, 0, 1] = (Inr (Num (6 * sqrt 2)), [])"
  by (simp add: sigma_gak_def shape3_def np_choice_example take_rows_def reshape_rows_def
      euclidean_def sqeuclidean_def median_def)

text \<open>
  The hypotheses of C3 hold for that dataset with three samples, and with one sample.
\<close>

theorem sigma_gak_spec_witness:
  "(0::int) < 3 \<and>
   is_array3 (npy3d_time_series_dataset (Flat_rows [[0, 3], [4, 9]])) \<and>
   shape3 (npy3d_time_series_dataset (Flat_rows [[0, 3], [4, 9]])) = (2, 2, 1) \<and>
   np_choice [0, 0, 1] (2 * 2) 3 (int (2 * 2) < 3) = (Inr [0, 1, 3], []) \<and>
   list_all (\<lambda>i. i < 2 * 2) [0, 1, 3::nat] \<and>
   length [0, 1, 3::nat] = nat 3 \<and> (2::int) \<le> 3 \<and>
   (\<exists>m. is_median (pairwise_distances 1
           (map (time_point (npy3d_time_series_dataset (Flat_rows [[0, 3], [4, 9]])) 2) [0, 1, 3])) m \<and>
        sigma_gak np_choice (Flat_rows [[0, 3], [4, 9]]) 3 [0, 0, 1] =
          (Inr (Num (m * sqrt (real 2))), [])) \<and>
   (0::int) < 1 \<and>
   np_choice [2] (2 * 2) 1 (int (2 * 2) < 1) = (Inr [2], []) \<and>
   list_all (\<lambda>i. i < 2 * 2) [2::nat] \<and> length [2::nat] = nat 1 \<and>
   pairwise_distances 1
     (map (time_point (npy3d_time_series_dataset (Flat_rows [[0, 3], [4, 9]])) 2) [2]) = {#} \<and>
   sigma_gak np_choice (Flat_rows [[0, 3], [4, 9]]) 1 [2] = (Inr NaN, [])"
proof -
  have h1: "(0::int) < 3" "(2::int) \<le> 3" "(0::int) < 1" by simp_all
  have h2: "is_array3 (npy3d_time_series_dataset (Flat_rows [[0, 3], [4, 9]]))"
    by (simp add: is_array3_def shape3_def)
  have h3: "shape3 (npy3d_time_series_dataset (Flat_rows [[0, 3], [4, 9]])) = (2, 2, 1)"
    by (simp add: shape3_def)
  have h4: "np_choice [0, 0, 1] (2 * 2) 3 (int (2 * 2) < 3) = (Inr [0, 1, 3], [])"
    by code_simp
  have h5: "list_all (\<lambda>i. i < 2 * 2) [0, 1, 3::nat]" "length [0, 1, 3::nat] = nat 3" by simp_all
  have k4: "np_choice [2] (2 * 2) 1 (int (2 * 2) < 1) = (Inr [2], [])"
    by code_simp
  have k5: "list_all (\<lambda>i. i < 2 * 2) [2::nat]" "length [2::nat] = nat 1" by simp_all
  note a = sigma_gak_spec [where choice = np_choice and g = "[0, 0, 1]" and n_ts = 2 and sz = 2
      and dataset = "Flat_rows [[0, 3], [4, 9]]", OF h1(1) refl h2 h3 h4 h5]
  note b = sigma_gak_spec [where choice = np_choice and g = "[2]" and n_ts = 2 and sz = 2
      and dataset = "Flat_rows [[0, 3], [4, 9]]", OF h1(3) refl h2 h3 k4 k5]
  from h1 h2 h3 h4 h5 k4 k5 a b show ?thesis by blast
qed

text \<open>
  Claim C3, counterexample. With \<open>n_samples = 1\<close> a single time-point is sampled, there
  is no pairwise distance, and the result is NaN, not a number.
\<close>

theorem sigma_gak_single_sample:
  "sigma_gak np_choice (Flat_rows [[0], [1], [3]]) 1 [2] = (Inr NaN, [])"
  by (simp add: sigma_gak_def shape3_def np_choice_def take_rows_def reshape_rows_def median_def)

text \<open>
  Claim C1, counterexample. \<^verbatim>\<open>sigma_gak\<close> has no seed parameter: it draws from the
  process-wide generator. Two successive calls with the same dataset and the same
  \<open>n_samples\<close> return the bandwidths 1 and 3.
\<close>

theorem sigma_gak_successive_calls_differ:
  "fst (sigma_gak np_choice (Flat_rows [[0], [1], [3]]) 2 [0, 0, 0, 1]) = Inr (Num 1) \<and>
   fst (sigma_gak np_choice (Flat_rows [[0], [1], [3]]) 2
          (snd (sigma_gak np_choice (Flat_rows [[0], [1], [3]]) 2 [0, 0, 0, 1]))) = Inr (Num 3)"
proof -
  have a: "sigma_gak np_choice (Flat_rows [[0], [1], [3]]) 2 [0, 0, 0, 1] = (Inr (Num 1), [0, 1])"
    by (simp add: sigma_gak_eval)
  have b: "sigma_gak np_choice (Flat_rows [[0], [1], [3]]) 2 [0, 1] = (Inr (Num 3), [])"
    by (simp add: sigma_gak_eval)
  show ?thesis by (simp only: a b fst_conv snd_conv)
qed

text \<open>
  Claim C1, as amended. The bandwidth depends on the generator only through the indices
  drawn for the call: from two generator states that yield the same draw (in particular
  from the same state), \<^verbatim>\<open>sigma_gak\<close> returns the same result for the same dataset and
  \<open>n_samples\<close>.
\<close>

theorem sigma_gak_same_sample_same_bandwidth:
  assumes shape: "shape3 (npy3d_time_series_dataset dataset) = (n_ts, sz, d)"
    and same: "fst (choice ga (n_ts * sz) n_samples (int (n_ts * sz) < n_samples)) =
               fst (choice gb (n_ts * sz) n_samples (int (n_ts * sz) < n_samples))"
  shows "fst (sigma_gak choice dataset n_samples ga) = fst (sigma_gak choice dataset n_samples gb)"
proof -
  obtain r1 h1 where c1: "choice ga (n_ts * sz) n_samples (int (n_ts * sz) < n_samples) = (r1, h1)"
    by (cases "choice ga (n_ts * sz) n_samples (int (n_ts * sz) < n_samples)")
  obtain r2 h2 where c2: "choice gb (n_ts * sz) n_samples (int (n_ts * sz) < n_samples) = (r2, h2)"
    by (cases "choice gb (n_ts * sz) n_samples (int (n_ts * sz) < n_samples)")
  from same c1 c2 have r: "r1 = r2" by simp
  show ?thesis
  proof (cases "int (n_ts * sz) < n_samples")
    case True
    with shape c1 c2 r show ?thesis
      by (simp add: sigma_gak_def split: sum.splits)
  next
    case False
    with shape c1 c2 r show ?thesis
      by (simp add: sigma_gak_def split: sum.splits)
  qed
qed

text \<open>
  Two generator states that differ but yield the same two indices.
\<close>

theorem sigma_gak_same_sample_same_bandwidth_witness:
  "shape3 (npy3d_time_series_dataset (Flat_rows [[0], [1], [3]])) = (3, 1, 1) \<and>
   fst (np_choice [0, 0, 5] (3 * 1) 2 (int (3 * 1) < 2)) =
   fst (np_choice [0, 0, 7] (3 * 1) 2 (int (3 * 1) < 2)) \<and>
   fst (sigma_gak np_choice (Flat_rows [[0], [1], [3]]) 2 [0, 0, 5]) =
   fst (sigma_gak np_choice (Flat_rows [[0], [1], [3]]) 2 [0, 0, 7])"
proof -
  have h1: "shape3 (npy3d_time_series_dataset (Flat_rows [[0], [1], [3]])) = (3, 1, 1)"
    by (simp add: shape3_def)
  have h2: "fst (np_choice [0, 0, 5] (3 * 1) 2 (int (3 * 1) < 2)) =
            fst (np_choice [0, 0, 7] (3 * 1) 2 (int (3 * 1) < 2))"
    by (simp add: np_choice_def numeral_2_eq_2)
  from h1 h2
    sigma_gak_same_sample_same_bandwidth [where choice = np_choice and n_ts = 3 and sz = 1
      and ga = "[0, 0, 5]" and gb = "[0, 0, 7]", OF h1 h2]
  show ?thesis by blast
qed

text \<open>
  Claim C2, counterexample. With \<open>n_samples = 0\<close> nothing is rejected: the sampler is
  called, returns the empty sample, and the result is the median of no distances, NaN.
\<close>

theorem sigma_gak_zero_samples_not_rejected:
  "sigma_gak np_choice (Flat_rows [[0], [1], [3]]) 0 [] = (Inr NaN, [])"
  by (simp add: sigma_gak_eval)

text \<open>
  Claim C2, as amended. For \<open>n_samples \<le> 0\<close> \<^verbatim>\<open>sigma_gak\<close> does no validation of its
  own: it calls the sampler with size \<open>n_samples\<close> and \<open>replace = False\<close>, leaves the
  generator in the state the sampler left it in, raises exactly the error the sampler
  raises, if any, and returns NaN when the sample is empty.
\<close>

theorem sigma_gak_nonpositive_n_samples:
  assumes nonpos: "n_samples \<le> 0"
    and shape: "shape3 (npy3d_time_series_dataset dataset) = (n_ts, sz, d)"
    and draw: "choice g (n_ts * sz) n_samples False = (drawn, g')"
    and range: "\<And>idx. drawn = Inr idx \<Longrightarrow>
                  list_all (\<lambda>i. i < length (reshape_rows (npy3d_time_series_dataset dataset))) idx"
  shows "snd (sigma_gak choice dataset n_samples g) = g' \<and>
         (\<forall>e. fst (sigma_gak choice dataset n_samples g) = Inl e \<longleftrightarrow> drawn = Inl e) \<and>
         (drawn = Inr [] \<longrightarrow> fst (sigma_gak choice dataset n_samples g) = Inr NaN)"
proof -
  have "0 \<le> int (n_ts * sz)" by simp
  with nonpos have flag: "\<not> int (n_ts * sz) < n_samples" by linarith
  show ?thesis
  proof (cases drawn)
    case (Inl e)
    with flag shape draw show ?thesis by (simp add: sigma_gak_def)
  next
    case (Inr idx)
    with range have "take_rows (reshape_rows (npy3d_time_series_dataset dataset)) idx =
        Inr (map (\<lambda>i. reshape_rows (npy3d_time_series_dataset dataset) ! i) idx)"
      by (simp add: take_rows_def)
    with Inr flag shape draw show ?thesis by (auto simp: sigma_gak_def median_def Let_def)
  qed
qed

text \<open>
  The hypotheses hold for \<open>n_samples = 0\<close> and the concrete generator.
\<close>

theorem sigma_gak_nonpositive_n_samples_witness:
  "(0::int) \<le> 0 \<and>
   shape3 (npy3d_time_series_dataset (Flat_rows [[0], [1], [3]])) = (3, 1, 1) \<and>
   np_choice [] (3 * 1) 0 False = (Inr [], []) \<and>
   snd (sigma_gak np_choice (Flat_rows [[0], [1], [3]]) 0 []) = [] \<and>
   fst (sigma_gak np_choice (Flat_rows [[0], [1], [3]]) 0 []) = Inr NaN"
proof -
  have h1: "(0::int) \<le> 0" by simp
  have h2: "shape3 (npy3d_time_series_dataset (Flat_rows [[0], [1], [3]])) = (3, 1, 1)"
    by (simp add: shape3_def)
  have h3: "np_choice [] (3 * 1) 0 False = (Inr [], [])"
    by (simp add: np_choice_def)
  have h4: "list_all (\<lambda>i. i < length (reshape_rows (npy3d_time_series_dataset (Flat_rows [[0], [1], [3]])))) idx"
    if "Inr [] = (Inr idx :: error + nat list)" for idx
    using that by simp
  from h1 h2 h3
    sigma_gak_nonpositive_n_samples [where choice = np_choice and n_ts = 3 and sz = 1
      and g = "[]" and drawn = "Inr []", OF h1 h2 h3 h4]
  show ?thesis by blast
qed

lemma draw_replace_contract:
  "0 < a \<Longrightarrow> length (fst (draw_replace a k g)) = k \<and> list_all (\<lambda>i. i < a) (fst (draw_replace a k g))"
proof (induction k arbitrary: g)
  case 0
  then show ?case by simp
next
  case (Suc k)
  obtain r g1 where r: "next_raw g = (r, g1)" by (cases "next_raw g")
  obtain rest g2 where d: "draw_replace a k g1 = (rest, g2)" by (cases "draw_replace a k g1")
  from Suc.IH [OF Suc.prems, of g1] d have "length rest = k \<and> list_all (\<lambda>i. i < a) rest"
    by simp
  then show ?case using r d Suc.prems by simp
qed

lemma draw_distinct_contract:
  "k \<le> length pool \<Longrightarrow> distinct pool \<Longrightarrow>
   length (fst (draw_distinct pool k g)) = k \<and>
   set (fst (draw_distinct pool k g)) \<subseteq> set pool \<and>
   distinct (fst (draw_distinct pool k g))"
proof (induction k arbitrary: pool g)
  case 0
  then show ?case by simp
next
  case (Suc k)
  obtain r g1 where r: "next_raw g = (r, g1)" by (cases "next_raw g")
  let ?i = "r mod length pool"
  let ?rest = "take ?i pool @ drop (Suc ?i) pool"
  from Suc.prems(1) have pos: "0 < length pool" by (cases pool) simp_all
  then have i: "?i < length pool" by simp
  have pool: "pool = take ?i pool @ pool ! ?i # drop (Suc ?i) pool"
    using i by (simp add: id_take_nth_drop)
  have len: "k \<le> length ?rest" using Suc.prems i by simp
  have "distinct (take ?i pool @ pool ! ?i # drop (Suc ?i) pool)"
    using Suc.prems(2) pool by simp
  then have dist: "distinct ?rest" and notin: "pool ! ?i \<notin> set ?rest"
    by auto
  have sub: "set ?rest \<subseteq> set pool"
    by (auto dest: in_set_takeD in_set_dropD)
  have mem: "pool ! ?i \<in> set pool" using i by simp
  from Suc.IH [OF len dist, of g1] r notin sub mem show ?case
    by (auto split: prod.splits)
qed

text \<open>
  The concrete generator honours the contract of a sampler: for a non-empty population
  and a size that replacement or the population allows, it returns as many indices as
  asked for, all in range, and distinct when drawn without replacement.
\<close>

lemma np_choice_contract:
  assumes "0 \<le> n" "0 < a" "replace \<or> n \<le> int a"
  shows "\<exists>idx g'. np_choice g a n replace = (Inr idx, g') \<and> length idx = nat n \<and>
           list_all (\<lambda>i. i < a) idx \<and> (replace \<or> distinct idx)"
proof (cases replace)
  case True
  with assms draw_replace_contract [of a "nat n" g] show ?thesis
    by (auto simp: np_choice_def split: prod.splits)
next
  case False
  with assms have "nat n \<le> length [0..<a]" by simp
  from draw_distinct_contract [OF this, of g] False assms show ?thesis
    by (auto simp: np_choice_def list_all_iff split: prod.splits)
qed

section \<open>Properties of the DTW engine\<close>

lemmas dtw_eval = dtw_def cydtw_dtw_def shape_ok_def feature_dim_def cost_matrix_def first_row_def
  next_row_def sqeuclidean_def cost_min_def cell_def Let_def

lemma length_fill_row:
  "length prev = Suc (length ys) \<Longrightarrow> length (fill_row x ys prev left) = length ys"
proof (induction ys arbitrary: prev left)
  case Nil
  then show ?case by simp
next
  case (Cons y ys)
  then obtain dg up rest where "prev = dg # up # rest"
    by (cases prev; cases "tl prev") auto
  with Cons show ?case by (simp add: Let_def)
qed

lemma fill_row_nth:
  "length prev = Suc (length ys) \<Longrightarrow> k < length ys \<Longrightarrow>
   fill_row x ys prev left ! k =
     cost_add (sqeuclidean x (ys ! k))
       (cost_min (prev ! Suc k)
          (cost_min (case k of 0 \<Rightarrow> left | Suc k' \<Rightarrow> fill_row x ys prev left ! k') (prev ! k)))"
proof (induction ys arbitrary: prev left k)
  case Nil
  then show ?case by simp
next
  case (Cons y ys)
  then obtain dg up rest where prev: "prev = dg # up # rest"
    by (cases prev; cases "tl prev") auto
  show ?case
  proof (cases k)
    case 0
    with prev show ?thesis by (simp add: Let_def)
  next
    case (Suc k')
    with Cons.prems prev have len: "length (up # rest) = Suc (length ys)" and k': "k' < length ys"
      by simp_all
    from Cons.IH [OF len k', of "cost_add (sqeuclidean x y) (cost_min up (cost_min left dg))"]
    show ?thesis using Suc prev by (simp add: Let_def split: nat.splits)
  qed
qed

lemma length_cost_row: "length (cost_row s1 s2 i) = Suc (length s2)"
  by (simp add: cost_row_def del: upt_Suc)

lemma nth_cost_row: "j \<le> length s2 \<Longrightarrow> cost_row s1 s2 i ! j = dtw_cost s1 s2 i j"
  unfolding cost_row_def by (metis le_imp_less_Suc nth_map_upt add_0 diff_zero)

lemma next_row_cost_row:
  "next_row (s1 ! i) s2 (cost_row s1 s2 i) = cost_row s1 s2 (Suc i)"
proof (rule nth_equalityI)
  note len = length_cost_row [of s1 s2 i]
  show "length (next_row (s1 ! i) s2 (cost_row s1 s2 i)) = length (cost_row s1 s2 (Suc i))"
    by (simp add: next_row_def length_fill_row [OF len] length_cost_row)
  fix j assume "j < length (next_row (s1 ! i) s2 (cost_row s1 s2 i))"
  then have j: "j < Suc (length s2)" by (simp add: next_row_def length_fill_row [OF len])
  then show "next_row (s1 ! i) s2 (cost_row s1 s2 i) ! j = cost_row s1 s2 (Suc i) ! j"
  proof (induction j)
    case 0
    show ?case by (simp add: next_row_def nth_cost_row)
  next
    case (Suc j)
    then have j: "j < length s2" by simp
    have prev: "next_row (s1 ! i) s2 (cost_row s1 s2 i) ! j = cost_row s1 s2 (Suc i) ! j"
      using Suc by simp
    have r: "cost_row s1 s2 a ! Suc j = dtw_cost s1 s2 a (Suc j)"
      "cost_row s1 s2 a ! j = dtw_cost s1 s2 a j" for a
      using j by (simp_all add: nth_cost_row)
    show ?case
    proof (cases j)
      case 0
      then show ?thesis
        using j r fill_row_nth [OF len j, of "s1 ! i" Infinite]
        by (simp add: next_row_def)
    next
      case (Suc j')
      then show ?thesis
        using j r prev fill_row_nth [OF len j, of "s1 ! i" Infinite]
        by (simp add: next_row_def)
    qed
  qed
qed

lemma cost_rows_cost_row:
  "cost_rows (drop i s1) s2 (cost_row s1 s2 i) = map (cost_row s1 s2) [Suc i..<Suc (length s1)]"
proof (induction "length s1 - i" arbitrary: i)
  case 0
  then show ?case by simp
next
  case (Suc k)
  then have i: "i < length s1" by simp
  then have d: "drop i s1 = s1 ! i # drop (Suc i) s1" by (simp add: Cons_nth_drop_Suc)
  have "k = length s1 - Suc i" using Suc by simp
  from Suc.hyps(1) [OF this] i show ?case
    by (simp add: d next_row_cost_row upt_conv_Cons [of "Suc i"] del: upt_Suc)
qed

lemma cost_matrix_rows: "cost_matrix s1 s2 = map (cost_row s1 s2) [0..<Suc (length s1)]"
proof -
  have r0: "first_row (length s2) = cost_row s1 s2 0"
  proof (rule nth_equalityI)
    show "length (first_row (length s2)) = length (cost_row s1 s2 0)"
      by (simp add: first_row_def length_cost_row)
    fix j assume "j < length (first_row (length s2))"
    then have "j \<le> length s2" by (simp add: first_row_def)
    then show "first_row (length s2) ! j = cost_row s1 s2 0 ! j"
      by (cases j) (simp_all add: first_row_def nth_cost_row)
  qed
  show ?thesis
    using cost_rows_cost_row [of 0 s1 s2]
    by (simp add: cost_matrix_def r0 upt_conv_Cons [of 0] del: upt_Suc)
qed

lemma cell_cost_matrix:
  "i \<le> length s1 \<Longrightarrow> j \<le> length s2 \<Longrightarrow> cell (cost_matrix s1 s2) i j = dtw_cost s1 s2 i j"
proof -
  assume i: "i \<le> length s1" and j: "j \<le> length s2"
  have "cost_matrix s1 s2 ! i = cost_row s1 s2 i"
    unfolding cost_matrix_rows using i by (metis le_imp_less_Suc nth_map_upt add_0 diff_zero)
  then show ?thesis using j by (simp add: cell_def nth_cost_row)
qed


lemma is_finite_cost_add: "is_finite (cost_add x c) = is_finite c"
  by (cases c) simp_all

lemma is_finite_cost_min: "is_finite (cost_min a b) = (is_finite a \<or> is_finite b)"
  by (cases a; cases b) (simp_all add: cost_min_def)

lemma cost_le_Infinite_left: "cost_le Infinite c = (\<not> is_finite c)"
  by (cases c) simp_all

lemma cost_le_Infinite_right: "cost_le c Infinite"
  by (cases c) simp_all

lemma dtw_cost_boundary:
  "is_finite (dtw_cost s1 s2 0 j) = (j = 0)" "is_finite (dtw_cost s1 s2 i 0) = (i = 0)"
  by (cases j, simp_all) (cases i, simp_all)

lemma dtw_cost_finite: "is_finite (dtw_cost s1 s2 (Suc i) (Suc j))"
proof (induction "i + j" arbitrary: i j rule: less_induct)
  case less
  show ?case
  proof (cases j)
    case (Suc j')
    have "is_finite (dtw_cost s1 s2 (Suc i) (Suc j'))"
      using less [of i j'] Suc by simp
    then show ?thesis using Suc by (simp add: is_finite_cost_add is_finite_cost_min)
  next
    case 0
    show ?thesis
    proof (cases i)
      case 0
      with \<open>j = 0\<close> show ?thesis by (simp add: is_finite_cost_add is_finite_cost_min)
    next
      case (Suc i')
      have "is_finite (dtw_cost s1 s2 (Suc i') (Suc 0))"
        using less [of i' 0] Suc by simp
      then show ?thesis using Suc \<open>j = 0\<close>
        by (simp add: is_finite_cost_add is_finite_cost_min)
    qed
  qed
qed

lemma dtw_cost_finite_iff: "is_finite (dtw_cost s1 s2 i j) = ((i = 0) = (j = 0))"
  by (cases i; cases j) (simp_all add: dtw_cost_finite del: dtw_cost.simps(4))

lemma backtrace_Suc:
  "backtrace D (Suc i) (Suc j) =
     (i, j) # backtrace D (fst (predecessor D i j)) (snd (predecessor D i j))"
  by (simp add: predecessor_def)

lemma predecessor_cases:
  assumes "cell D i j = dtw_cost s1 s2 i j"
    and "cell D i (Suc j) = dtw_cost s1 s2 i (Suc j)"
    and "cell D (Suc i) j = dtw_cost s1 s2 (Suc i) j"
  shows "(i = 0 \<and> j = 0 \<and> predecessor D i j = (0, 0)) \<or>
         (\<exists>a b. predecessor D i j = (Suc a, Suc b) \<and> a + b < i + j \<and>
                 Suc a \<le> Suc i \<and> Suc b \<le> Suc j \<and> path_step (a, b) (i, j))"
proof (cases i)
  case 0
  note i0 = this
  show ?thesis
  proof (cases j)
    case 0
    with i0 assms show ?thesis by (simp add: predecessor_def)
  next
    case (Suc j')
    have "is_finite (dtw_cost s1 s2 (Suc 0) (Suc j'))" by (rule dtw_cost_finite)
    then obtain c where "dtw_cost s1 s2 (Suc 0) (Suc j') = Finite c"
      by (cases "dtw_cost s1 s2 (Suc 0) (Suc j')") simp_all
    with i0 Suc assms show ?thesis by (simp add: predecessor_def)
  qed
next
  case (Suc i')
  note iS = this
  show ?thesis
  proof (cases j)
    case 0
    have "is_finite (dtw_cost s1 s2 (Suc i') (Suc 0))" by (rule dtw_cost_finite)
    then obtain c where "dtw_cost s1 s2 (Suc i') (Suc 0) = Finite c"
      by (cases "dtw_cost s1 s2 (Suc i') (Suc 0)") simp_all
    with iS 0 assms show ?thesis by (simp add: predecessor_def)
  next
    case (Suc j')
    with iS show ?thesis by (auto simp: predecessor_def)
  qed
qed

lemma backtrace_props:
  assumes D: "\<And>a b. a \<le> n \<Longrightarrow> b \<le> m \<Longrightarrow> cell D a b = dtw_cost s1 s2 a b"
  shows "Suc i \<le> n \<Longrightarrow> Suc j \<le> m \<Longrightarrow>
         hd (backtrace D (Suc i) (Suc j)) = (i, j) \<and>
         last (backtrace D (Suc i) (Suc j)) = (0, 0) \<and>
         successively (\<lambda>p q. path_step q p) (backtrace D (Suc i) (Suc j))"
proof (induction "i + j" arbitrary: i j rule: less_induct)
  case less
  have cells: "cell D i j = dtw_cost s1 s2 i j" "cell D i (Suc j) = dtw_cost s1 s2 i (Suc j)"
    "cell D (Suc i) j = dtw_cost s1 s2 (Suc i) j"
    using less.prems by (simp_all add: D)
  from predecessor_cases [OF cells] show ?case
  proof (elim disjE conjE exE)
    assume "i = 0" "j = 0" "predecessor D i j = (0, 0)"
    then show ?thesis by (simp add: backtrace_Suc)
  next
    fix a b
    assume p: "predecessor D i j = (Suc a, Suc b)" and lt: "a + b < i + j"
      and le: "Suc a \<le> Suc i" "Suc b \<le> Suc j" and step: "path_step (a, b) (i, j)"
    have IH: "hd (backtrace D (Suc a) (Suc b)) = (a, b) \<and>
         last (backtrace D (Suc a) (Suc b)) = (0, 0) \<and>
         successively (\<lambda>p q. path_step q p) (backtrace D (Suc a) (Suc b))"
      using less.hyps [OF lt] le less.prems by simp
    have ne: "backtrace D (Suc a) (Suc b) \<noteq> []" by simp
    show ?thesis
      using IH ne step unfolding backtrace_Suc [of D i j] p
      by (cases "backtrace D (Suc a) (Suc b)") (simp_all del: backtrace.simps path_step.simps)
  qed
qed

lemma cydtw_dtw_finite:
  assumes "shape_ok s1 s2"
  shows "\<exists>c. dtw_cost s1 s2 (length s1) (length s2) = Finite c \<and>
             cell (cost_matrix s1 s2) (length s1) (length s2) = Finite c"
proof -
  from assms obtain i j where n: "length s1 = Suc i" "length s2 = Suc j"
    by (cases s1; cases s2) (auto simp: shape_ok_def)
  have "is_finite (dtw_cost s1 s2 (length s1) (length s2))"
    unfolding n by (rule dtw_cost_finite)
  then obtain c where "dtw_cost s1 s2 (length s1) (length s2) = Finite c"
    by (cases "dtw_cost s1 s2 (length s1) (length s2)") simp_all
  then show ?thesis by (simp add: cell_cost_matrix)
qed

text \<open>
  Claim C4. For series the engine accepts, \<^verbatim>\<open>dtw\<close> returns \<open>sqrt (D[n][m])\<close>, where
  every entry of the matrix the engine builds obeys the recurrence \<open>D[0][0] = 0\<close>,
  \<open>+\<infinity>\<close> in the rest of the first row and column, and \<open>D[i][j]\<close> the squared
  Euclidean local cost plus the minimum of the three predecessors. The two examples of
  the docstring evaluate to 0 and 1.
\<close>

theorem dtw_spec:
  "(shape_ok (npy2d_time_series s1) (npy2d_time_series s2) \<longrightarrow>
      (\<exists>c. dtw_cost (npy2d_time_series s1) (npy2d_time_series s2)
              (length (npy2d_time_series s1)) (length (npy2d_time_series s2)) = Finite c \<and>
           dtw s1 s2 = Inr (sqrt c))) \<and>
   (\<forall>i j. i \<le> length (npy2d_time_series s1) \<and> j \<le> length (npy2d_time_series s2) \<longrightarrow>
      cell (cost_matrix (npy2d_time_series s1) (npy2d_time_series s2)) i j =
      dtw_cost (npy2d_time_series s1) (npy2d_time_series s2) i j) \<and>
   dtw (Flat [1, 2, 3]) (Flat [1, 2, 2, 3]) = Inr 0 \<and>
   dtw (Flat [1, 2, 3]) (Flat [1, 2, 2, 3, 4]) = Inr 1"
proof (intro conjI impI allI)
  assume ok: "shape_ok (npy2d_time_series s1) (npy2d_time_series s2)"
  from cydtw_dtw_finite [OF ok] ok
  show "\<exists>c. dtw_cost (npy2d_time_series s1) (npy2d_time_series s2)
              (length (npy2d_time_series s1)) (length (npy2d_time_series s2)) = Finite c \<and>
           dtw s1 s2 = Inr (sqrt c)"
    by (auto simp: dtw_def cydtw_dtw_def)
next
  fix i j
  assume "i \<le> length (npy2d_time_series s1) \<and> j \<le> length (npy2d_time_series s2)"
  then show "cell (cost_matrix (npy2d_time_series s1) (npy2d_time_series s2)) i j =
      dtw_cost (npy2d_time_series s1) (npy2d_time_series s2) i j"
    by (simp add: cell_cost_matrix)
next
  show "dtw (Flat [1, 2, 3]) (Flat [1, 2, 2, 3]) = Inr 0"
    by (simp add: dtw_eval)
next
  show "dtw (Flat [1, 2, 3]) (Flat [1, 2, 2, 3, 4]) = Inr 1"
    by (simp add: dtw_eval)
qed

text \<open>
  The hypotheses of C4 hold for the series of the second example and the entry
  \<open>D[2][3]\<close>.
\<close>

theorem dtw_spec_witness:
  "shape_ok (npy2d_time_series (Flat [1, 2, 3])) (npy2d_time_series (Flat [1, 2, 2, 3, 4])) \<and>
   (\<exists>c. dtw_cost (npy2d_time_series (Flat [1, 2, 3])) (npy2d_time_series (Flat [1, 2, 2, 3, 4]))
           (length (npy2d_time_series (Flat [1, 2, 3])))
           (length (npy2d_time_series (Flat [1, 2, 2, 3, 4]))) = Finite c \<and>
         dtw (Flat [1, 2, 3]) (Flat [1, 2, 2, 3, 4]) = Inr (sqrt c)) \<and>
   (2::nat) \<le> length (npy2d_time_series (Flat [1, 2, 3])) \<and>
   (3::nat) \<le> length (npy2d_time_series (Flat [1, 2, 2, 3, 4])) \<and>
   cell (cost_matrix (npy2d_time_series (Flat [1, 2, 3])) (npy2d_time_series (Flat [1, 2, 2, 3, 4]))) 2 3 =
   dtw_cost (npy2d_time_series (Flat [1, 2, 3])) (npy2d_time_series (Flat [1, 2, 2, 3, 4])) 2 3"
proof -
  have h1: "shape_ok (npy2d_time_series (Flat [1, 2, 3])) (npy2d_time_series (Flat [1, 2, 2, 3, 4]))"
    by (simp add: shape_ok_def feature_dim_def)
  have h2: "(2::nat) \<le> length (npy2d_time_series (Flat [1, 2, 3]))"
    "(3::nat) \<le> length (npy2d_time_series (Flat [1, 2, 2, 3, 4]))"
    by simp_all
  from h1 h2 dtw_spec [of "Flat [1, 2, 3]" "Flat [1, 2, 2, 3, 4]"]
  show ?thesis by blast
qed

text \<open>
  Claim C7. For non-empty series of equal feature dimension \<^verbatim>\<open>dtw_path\<close> returns a
  path that starts at \<open>(0, 0)\<close>, ends at \<open>(n - 1, m - 1)\<close>, and advances the first
  index, the second, or both by exactly one at each step.
\<close>

theorem dtw_path_alignment:
  assumes ok: "shape_ok (npy2d_time_series s1) (npy2d_time_series s2)"
  shows "\<exists>path score. dtw_path s1 s2 = Inr (path, score) \<and> path \<noteq> [] \<and>
           hd path = (0, 0) \<and>
           last path = (length (npy2d_time_series s1) - 1, length (npy2d_time_series s2) - 1) \<and>
           successively path_step path"
proof -
  let ?a = "npy2d_time_series s1" and ?b = "npy2d_time_series s2"
  let ?D = "cost_matrix ?a ?b"
  from ok obtain i j where n: "length ?a = Suc i" "length ?b = Suc j"
    by (cases ?a; cases ?b) (auto simp: shape_ok_def)
  from cydtw_dtw_finite [OF ok] obtain c where c: "cell ?D (length ?a) (length ?b) = Finite c"
    by blast
  let ?bt = "backtrace ?D (length ?a) (length ?b)"
  have D: "\<And>x y. x \<le> length ?a \<Longrightarrow> y \<le> length ?b \<Longrightarrow> cell ?D x y = dtw_cost ?a ?b x y"
    by (rule cell_cost_matrix)
  have props: "hd ?bt = (i, j) \<and> last ?bt = (0, 0) \<and> successively (\<lambda>p q. path_step q p) ?bt"
    unfolding n by (rule backtrace_props [where n = "length ?a" and m = "length ?b"])
      (simp_all add: D n)
  have ne: "?bt \<noteq> []" unfolding n by simp
  have path: "dtw_path s1 s2 = Inr (rev ?bt, sqrt c)"
    using ok c by (simp add: dtw_path_def cydtw_dtw_path_def)
  have "hd (rev ?bt) = (0, 0)" using props ne by (simp add: hd_rev)
  moreover have "last (rev ?bt) = (length ?a - 1, length ?b - 1)"
    using props ne n by (simp add: last_rev)
  moreover have "successively path_step (rev ?bt)"
    using props by (simp add: successively_rev)
  ultimately show ?thesis using path ne by simp
qed

text \<open>
  The hypothesis of C7 holds for the series of the docstring.
\<close>

theorem dtw_path_alignment_witness:
  "shape_ok (npy2d_time_series (Flat [1, 2, 3])) (npy2d_time_series (Flat [1, 2, 2, 3, 4])) \<and>
   (\<exists>path score. dtw_path (Flat [1, 2, 3]) (Flat [1, 2, 2, 3, 4]) = Inr (path, score) \<and>
      path \<noteq> [] \<and> hd path = (0, 0) \<and>
      last path = (length (npy2d_time_series (Flat [1, 2, 3])) - 1,
                   length (npy2d_time_series (Flat [1, 2, 2, 3, 4])) - 1) \<and>
      successively path_step path)"
proof -
  have h1: "shape_ok (npy2d_time_series (Flat [1, 2, 3])) (npy2d_time_series (Flat [1, 2, 2, 3, 4]))"
    by (simp add: shape_ok_def feature_dim_def)
  from h1 dtw_path_alignment [OF h1] show ?thesis by blast
qed

text \<open>
  The path of the second example of the docstring.
\<close>

lemma dtw_path_example:
  "dtw_path (Flat [1, 2, 3]) (Flat [1, 2, 2, 3, 4]) =
     Inr ([(0, 0), (1, 1), (1, 2), (2, 3), (2, 4)], 1)"
  by (simp add: dtw_path_def cydtw_dtw_path_def dtw_eval eval_nat_numeral)

section \<open>The GAK on the examples of the docstrings\<close>

lemma sqeuclidean_nonneg: "0 \<le> sqeuclidean a b"
  unfolding sqeuclidean_def by (intro sum_list_nonneg) auto

lemma local_kernel_pos: "0 < local_kernel sigma a b"
proof -
  define e where "e = exp (- sqeuclidean a b / (2 * sigma\<^sup>2))"
  have "0 \<le> sqeuclidean a b / (2 * sigma\<^sup>2)"
    using sqeuclidean_nonneg [of a b] by (intro divide_nonneg_nonneg) simp_all
  then have "exp (- (sqeuclidean a b / (2 * sigma\<^sup>2))) \<le> 1" by simp
  then have "e \<le> 1" unfolding e_def by (simp only: minus_divide_left)
  moreover have "0 < e" by (simp add: e_def)
  ultimately have "0 < e / (2 - e)" by (intro divide_pos_pos) simp_all
  then show ?thesis by (simp add: local_kernel_def e_def)
qed

lemma gak_grid_nonneg: "0 \<le> gak_grid sigma x y i j"
  by (induction sigma x y i j rule: gak_grid.induct)
     (simp_all add: add_nonneg_nonneg less_imp_le [OF local_kernel_pos])

lemma gak_grid_pos: "0 < gak_grid sigma x y (Suc i) (Suc j)"
proof (induction "i + j" arbitrary: i j rule: less_induct)
  case less
  have "0 < gak_grid sigma x y i (Suc j) + gak_grid sigma x y (Suc i) j + gak_grid sigma x y i j"
  proof (cases i)
    case 0
    show ?thesis
    proof (cases j)
      case 0
      with \<open>i = 0\<close> show ?thesis by simp
    next
      case (Suc j')
      have "0 < gak_grid sigma x y (Suc i) j" using less [of i j'] Suc by simp
      then show ?thesis
        using gak_grid_nonneg [of sigma x y i "Suc j"] gak_grid_nonneg [of sigma x y i j]
        by linarith
    qed
  next
    case (Suc i')
    have "0 < gak_grid sigma x y i (Suc j)" using less [of i' j] Suc by simp
    then show ?thesis
      using gak_grid_nonneg [of sigma x y "Suc i" j] gak_grid_nonneg [of sigma x y i j]
      by linarith
  qed
  then show ?case using local_kernel_pos [of sigma "x ! i" "y ! j"] by simp
qed

lemma raw_gak_pos: "x \<noteq> [] \<Longrightarrow> y \<noteq> [] \<Longrightarrow> 0 < raw_gak x y sigma"
  by (cases x; cases y) (simp_all add: raw_gak_def gak_grid_pos del: gak_grid.simps)

lemma local_kernel_le_one: "local_kernel sigma a b \<le> 1"
proof -
  define e where "e = exp (- sqeuclidean a b / (2 * sigma\<^sup>2))"
  have "0 \<le> sqeuclidean a b / (2 * sigma\<^sup>2)"
    using sqeuclidean_nonneg [of a b] by (intro divide_nonneg_nonneg) simp_all
  then have "exp (- (sqeuclidean a b / (2 * sigma\<^sup>2))) \<le> 1" by simp
  then have "e \<le> 1" unfolding e_def by (simp only: minus_divide_left)
  then have "e / (2 - e) \<le> 1" by (simp add: field_simps)
  then show ?thesis by (simp add: local_kernel_def e_def)
qed

lemma gak_grid_kernel_grid: "gak_grid sigma x y i j = kernel_grid (local_kernel sigma) x y i j"
  by (induction sigma x y i j rule: gak_grid.induct) simp_all

lemma kernel_grid_mono:
  "(\<And>a b. a \<in> set x \<Longrightarrow> b \<in> set y \<Longrightarrow> 0 \<le> k a b \<and> k a b \<le> k' a b) \<Longrightarrow>
   i \<le> length x \<Longrightarrow> j \<le> length y \<Longrightarrow>
   0 \<le> kernel_grid k x y i j \<and> kernel_grid k x y i j \<le> kernel_grid k' x y i j"
proof (induction k x y i j rule: kernel_grid.induct)
  case (4 k s1 s2 i j)
  let ?A = "kernel_grid k s1 s2 i (Suc j) + kernel_grid k s1 s2 (Suc i) j + kernel_grid k s1 s2 i j"
  let ?A' = "kernel_grid k' s1 s2 i (Suc j) + kernel_grid k' s1 s2 (Suc i) j + kernel_grid k' s1 s2 i j"
  from 4 have ih: "0 \<le> ?A" "?A \<le> ?A'" by simp_all
  from 4 have "s1 ! i \<in> set s1" "s2 ! j \<in> set s2" by simp_all
  from "4.prems"(1) [OF this]
  have kk: "0 \<le> k (s1 ! i) (s2 ! j)" "k (s1 ! i) (s2 ! j) \<le> k' (s1 ! i) (s2 ! j)"
    by simp_all
  have "?A * k (s1 ! i) (s2 ! j) \<le> ?A' * k' (s1 ! i) (s2 ! j)"
    by (rule mult_mono) (use ih kk in simp_all)
  then show ?case using ih kk by simp
qed simp_all

text \<open>
  The exponential at the three arguments of the examples, from its Taylor polynomial of
  degree 11 and the remainder of Lagrange.
\<close>

lemma exp_two_le: "exp (2::real) \<le> 9"
proof -
  have "exp (2::real) = exp 1 * exp 1" by (simp add: exp_add [symmetric])
  also have "\<dots> \<le> 3 * 3" by (intro mult_mono exp_le) simp_all
  finally show ?thesis by simp
qed

lemma exp_neg_bounds:
  fixes t :: real
  assumes "0 \<le> t" "t \<le> 2" "even n"
  shows "(\<Sum>m<n. (- t) ^ m / fact m) \<le> exp (- t)"
    and "exp (- t) \<le> (\<Sum>m<n. (- t) ^ m / fact m) + 9 * t ^ n / fact n"
proof -
  from Maclaurin_exp_le [of "- t" n] obtain u where
    u: "\<bar>u\<bar> \<le> \<bar>- t\<bar>" and e: "exp (- t) = (\<Sum>m<n. (- t) ^ m / fact m) + exp u / fact n * (- t) ^ n"
    by blast
  have p: "(- t) ^ n = t ^ n" using assms(3) by simp
  have tn: "0 \<le> t ^ n / fact n" using assms(1) by simp
  have "exp u \<le> exp 2" using u assms by simp
  then have u9: "exp u \<le> 9" using exp_two_le by linarith
  have "0 \<le> exp u * (t ^ n / fact n)" using tn by (intro mult_nonneg_nonneg) simp_all
  then show "(\<Sum>m<n. (- t) ^ m / fact m) \<le> exp (- t)" unfolding e p by simp
  have "exp u * (t ^ n / fact n) \<le> 9 * (t ^ n / fact n)"
    using u9 tn by (rule mult_right_mono)
  then show "exp (- t) \<le> (\<Sum>m<n. (- t) ^ m / fact m) + 9 * t ^ n / fact n"
    unfolding e p by simp
qed

lemma exp_eighth:
  "88249690258 / 100000000000 \<le> exp (- (1 / 8 :: real))"
  "exp (- (1 / 8 :: real)) \<le> 88249690259 / 100000000000"
proof -
  let ?S = "\<Sum>m<12. (- (1 / 8 :: real)) ^ m / fact m"
  have b: "?S \<le> exp (- (1 / 8))" "exp (- (1 / 8)) \<le> ?S + 9 * (1 / 8) ^ 12 / fact 12"
    using exp_neg_bounds [of "1 / 8 :: real" 12] by simp_all
  have "88249690258 / 100000000000 \<le> ?S"
    by (simp add: eval_nat_numeral lessThan_Suc)
  then show "88249690258 / 100000000000 \<le> exp (- (1 / 8 :: real))" using b(1) by linarith
  have "?S + 9 * (1 / 8) ^ 12 / fact 12 \<le> 88249690259 / 100000000000"
    by (simp add: eval_nat_numeral lessThan_Suc)
  then show "exp (- (1 / 8 :: real)) \<le> 88249690259 / 100000000000" using b(2) by linarith
qed

lemma exp_half:
  "60653065971 / 100000000000 \<le> exp (- (1 / 2 :: real))"
  "exp (- (1 / 2 :: real)) \<le> 60653065972 / 100000000000"
proof -
  let ?S = "\<Sum>m<12. (- (1 / 2 :: real)) ^ m / fact m"
  have b: "?S \<le> exp (- (1 / 2))" "exp (- (1 / 2)) \<le> ?S + 9 * (1 / 2) ^ 12 / fact 12"
    using exp_neg_bounds [of "1 / 2 :: real" 12] by simp_all
  have "60653065971 / 100000000000 \<le> ?S"
    by (simp add: eval_nat_numeral lessThan_Suc)
  then show "60653065971 / 100000000000 \<le> exp (- (1 / 2 :: real))" using b(1) by linarith
  have "?S + 9 * (1 / 2) ^ 12 / fact 12 \<le> 60653065972 / 100000000000"
    by (simp add: eval_nat_numeral lessThan_Suc)
  then show "exp (- (1 / 2 :: real)) \<le> 60653065972 / 100000000000" using b(2) by linarith
qed

lemma exp_nine_eighths:
  "3246524 / 10000000 \<le> exp (- (9 / 8 :: real))"
  "exp (- (9 / 8 :: real)) \<le> 3246526 / 10000000"
proof -
  let ?S = "\<Sum>m<12. (- (9 / 8 :: real)) ^ m / fact m"
  have b: "?S \<le> exp (- (9 / 8))" "exp (- (9 / 8)) \<le> ?S + 9 * (9 / 8) ^ 12 / fact 12"
    using exp_neg_bounds [of "9 / 8 :: real" 12] by simp_all
  have "3246524 / 10000000 \<le> ?S"
    by (simp add: eval_nat_numeral lessThan_Suc)
  then show "3246524 / 10000000 \<le> exp (- (9 / 8 :: real))" using b(1) by linarith
  have "?S + 9 * (9 / 8) ^ 12 / fact 12 \<le> 3246526 / 10000000"
    by (simp add: eval_nat_numeral lessThan_Suc)
  then show "exp (- (9 / 8 :: real)) \<le> 3246526 / 10000000" using b(2) by linarith
qed

lemma kappa_mono:
  fixes a e b :: real
  assumes "a \<le> e" "e \<le> b" "b < 2"
  shows "a / (2 - a) \<le> e / (2 - e)" "e / (2 - e) \<le> b / (2 - b)"
  using assms by (simp_all add: field_simps)

lemma kappa_le:
  fixes e :: real
  assumes "0 \<le> e" "e \<le> 1"
  shows "e / (2 - e) \<le> e"
proof -
  have "e / (2 - e) \<le> e / 1"
    using assms by (intro divide_left_mono) simp_all
  then show ?thesis by simp
qed

lemma kappa_bounds:
  "kappa_lo (sqeuclidean a b) \<le> local_kernel 2 a b"
  "local_kernel 2 a b \<le> kappa_hi (sqeuclidean a b)"
  "0 \<le> kappa_lo (sqeuclidean a b)"
proof -
  let ?q = "sqeuclidean a b"
  have k: "local_kernel 2 a b = exp (- (?q / 8)) / (2 - exp (- (?q / 8)))"
    by (simp add: local_kernel_def)
  have c0: "local_kernel 2 a b = 1" if "?q = 0" using that by (simp add: k)
  have c1: "78970 / 100000 \<le> local_kernel 2 a b \<and> local_kernel 2 a b \<le> 78971 / 100000" if "?q = 1"
    using kappa_mono [OF exp_eighth] by (simp add: k that)
  have c4: "43526 / 100000 \<le> local_kernel 2 a b \<and> local_kernel 2 a b \<le> 43527 / 100000" if "?q = 4"
    using kappa_mono [OF exp_half] by (simp add: k that)
  have c9: "19378 / 100000 \<le> local_kernel 2 a b \<and> local_kernel 2 a b \<le> 19379 / 100000" if "?q = 9"
    using kappa_mono [OF exp_nine_eighths] by (simp add: k that)
  note r = local_kernel_pos [of 2 a b] local_kernel_le_one [of 2 a b]
  show "kappa_lo ?q \<le> local_kernel 2 a b" using c0 c1 c4 c9 r by (auto simp: kappa_lo_def)
  show "local_kernel 2 a b \<le> kappa_hi ?q" using c0 c1 c4 c9 r by (auto simp: kappa_hi_def)
  show "0 \<le> kappa_lo ?q" by (simp add: kappa_lo_def)
qed

lemma raw_gak_bounds:
  "kernel_grid (\<lambda>a b. kappa_lo (sqeuclidean a b)) x y (length x) (length y) \<le> raw_gak x y 2"
  "raw_gak x y 2 \<le> kernel_grid (\<lambda>a b. kappa_hi (sqeuclidean a b)) x y (length x) (length y)"
proof -
  show "kernel_grid (\<lambda>a b. kappa_lo (sqeuclidean a b)) x y (length x) (length y) \<le> raw_gak x y 2"
    unfolding raw_gak_def gak_grid_kernel_grid
    using kernel_grid_mono [of x y "\<lambda>a b. kappa_lo (sqeuclidean a b)" "local_kernel 2" "length x" "length y"]
      kappa_bounds by simp
  show "raw_gak x y 2 \<le> kernel_grid (\<lambda>a b. kappa_hi (sqeuclidean a b)) x y (length x) (length y)"
    unfolding raw_gak_def gak_grid_kernel_grid
    using kernel_grid_mono [of x y "local_kernel 2" "\<lambda>a b. kappa_hi (sqeuclidean a b)" "length x" "length y"]
      kappa_bounds local_kernel_pos [of 2] by (simp add: less_imp_le)
qed

lemma raw_gak_docstring:
  "15358 / 1000 \<le> raw_gak [[1], [2], [3]] [[1], [2], [2], [3]] 2"
  "raw_gak [[1], [2], [3]] [[1], [2], [2], [3]] 2 \<le> 153584 / 10000"
  using raw_gak_bounds [of "[[1], [2], [3]]" "[[1], [2], [2], [3]]"]
  by (simp_all add: eval_nat_numeral sqeuclidean_def kappa_lo_def kappa_hi_def)

lemma raw_gak_docstring_2:
  "84434 / 10000 \<le> raw_gak [[1], [2], [3]] [[1], [2], [3]] 2"
  "raw_gak [[1], [2], [3]] [[1], [2], [3]] 2 \<le> 84436 / 10000"
  using raw_gak_bounds [of "[[1], [2], [3]]" "[[1], [2], [3]]"]
  by (simp_all add: eval_nat_numeral sqeuclidean_def kappa_lo_def kappa_hi_def)

lemma raw_gak_docstring_3:
  "396534 / 10000 \<le> raw_gak [[1], [2], [2], [3]] [[1], [2], [2], [3]] 2"
  "raw_gak [[1], [2], [2], [3]] [[1], [2], [2], [3]] 2 \<le> 396543 / 10000"
  using raw_gak_bounds [of "[[1], [2], [2], [3]]" "[[1], [2], [2], [3]]"]
  by (simp_all add: eval_nat_numeral sqeuclidean_def kappa_lo_def kappa_hi_def)

lemma raw_gak_docstring_4:
  "221429 / 10000 \<le> raw_gak [[1], [2], [2], [3]] [[1], [2], [3], [4]] 2"
  "raw_gak [[1], [2], [2], [3]] [[1], [2], [3], [4]] 2 \<le> 221439 / 10000"
  using raw_gak_bounds [of "[[1], [2], [2], [3]]" "[[1], [2], [3], [4]]"]
  by (simp_all add: eval_nat_numeral sqeuclidean_def kappa_lo_def kappa_hi_def)

lemma raw_gak_docstring_5:
  "287075 / 10000 \<le> raw_gak [[1], [2], [3], [4]] [[1], [2], [3], [4]] 2"
  "raw_gak [[1], [2], [3], [4]] [[1], [2], [3], [4]] 2 \<le> 287085 / 10000"
  using raw_gak_bounds [of "[[1], [2], [3], [4]]" "[[1], [2], [3], [4]]"]
  by (simp_all add: eval_nat_numeral sqeuclidean_def kappa_lo_def kappa_hi_def)

lemma normalised_bounds:
  fixes kab kaa kbb :: real
  assumes ab: "A \<le> kab" "kab \<le> A'" and aa: "B \<le> kaa" "kaa \<le> B'" and bb: "C \<le> kbb" "kbb \<le> C'"
    and pos: "0 < A" "0 < B" "0 < C" "0 < l" "0 < u"
    and lo: "l\<^sup>2 * (B' * C') \<le> A\<^sup>2" and hi: "A'\<^sup>2 < u\<^sup>2 * (B * C)"
  shows "l \<le> kab / sqrt (kaa * kbb)" "kab / sqrt (kaa * kbb) < u"
proof -
  have p: "0 < kaa" "0 < kbb" using aa bb pos by linarith+
  then have root: "0 < sqrt (kaa * kbb)" by simp
  have "kaa * kbb \<le> B' * C'" using aa bb p by (intro mult_mono) simp_all
  then have "l\<^sup>2 * (kaa * kbb) \<le> l\<^sup>2 * (B' * C')" by (intro mult_left_mono) simp_all
  then have "l\<^sup>2 * (kaa * kbb) \<le> A\<^sup>2" using lo by linarith
  then have "sqrt (l\<^sup>2 * (kaa * kbb)) \<le> sqrt (A\<^sup>2)" by (simp only: real_sqrt_le_iff)
  then have "l * sqrt (kaa * kbb) \<le> A" using pos by (simp add: real_sqrt_mult)
  then have "l * sqrt (kaa * kbb) \<le> kab" using ab by linarith
  then show "l \<le> kab / sqrt (kaa * kbb)" using root by (simp add: pos_le_divide_eq)
  have "B * C \<le> kaa * kbb" using aa bb pos by (intro mult_mono) simp_all
  then have "u\<^sup>2 * (B * C) \<le> u\<^sup>2 * (kaa * kbb)" by (intro mult_left_mono) simp_all
  then have "A'\<^sup>2 < u\<^sup>2 * (kaa * kbb)" using hi by linarith
  then have "sqrt (A'\<^sup>2) < sqrt (u\<^sup>2 * (kaa * kbb))" by (simp only: real_sqrt_less_iff)
  moreover have "0 < A'" using ab pos by linarith
  ultimately have "A' < u * sqrt (kaa * kbb)" using pos by (simp add: real_sqrt_mult)
  then have "kab < u * sqrt (kaa * kbb)" using ab by linarith
  then show "kab / sqrt (kaa * kbb) < u" using root by (simp add: pos_divide_less_eq)
qed

text \<open>
  The result of the engine on a pair of series: the normalised value, or the error of an
  underflow.
\<close>

lemma guarded_Inr: "r = (if c then Inl e else Inr x) \<Longrightarrow> r = Inr v \<Longrightarrow> \<not> c"
  by (cases c) simp_all

lemma guarded_value: "r = (if c then Inl e else Inr x) \<Longrightarrow> \<not> c \<Longrightarrow> r = Inr x"
  by simp

lemma guarded_cases: "r = (if c then Inl e else Inr x) \<Longrightarrow> (\<exists>v. r = Inr v) \<or> r = Inl e"
  by (cases c) simp_all

lemma cygak_normalized_gak_cases:
  assumes "0 < sigma" "shape_ok s1 s2"
  shows "cygak_normalized_gak s1 s2 sigma =
           (if raw_gak s1 s2 sigma / sqrt (raw_gak s1 s1 sigma * raw_gak s2 s2 sigma) \<le> 1 / 2 ^ 1075
            then Inl NumericalError
            else Inr (raw_gak s1 s2 sigma / sqrt (raw_gak s1 s1 sigma * raw_gak s2 s2 sigma)))"
  using assms by (simp only: cygak_normalized_gak_def double_underflow_def) simp

lemma power_1075_gt_one: "(1::real) < 2 ^ 1075"
  by (rule one_less_power) simp_all

lemma one_not_underflow: "\<not> (1::real) \<le> 1 / 2 ^ 1075"
proof
  assume "(1::real) \<le> 1 / 2 ^ 1075"
  moreover have "(1::real) / 2 ^ 1075 < 1 / 1"
    by (rule divide_strict_left_mono) (use power_1075_gt_one in simp_all)
  ultimately show False by simp
qed

lemma underflow_small: "(1::real) / 2 ^ 1075 < 1 / 2"
proof -
  have "(2::real) ^ 1 < 2 ^ 1075" by (rule power_strict_increasing) simp_all
  then have "(2::real) < 2 ^ 1075" by simp
  then show ?thesis by (intro divide_strict_left_mono) simp_all
qed

lemma cygak_normalized_gak_self:
  assumes "0 < sigma" "s \<noteq> []"
  shows "cygak_normalized_gak s s sigma = Inr 1"
proof -
  have ok: "shape_ok s s" using assms(2) by (simp add: shape_ok_def)
  have "0 < raw_gak s s sigma" using assms(2) by (simp add: raw_gak_pos)
  then have one: "raw_gak s s sigma / sqrt (raw_gak s s sigma * raw_gak s s sigma) = 1" by simp
  have "cygak_normalized_gak s s sigma =
      (if (1::real) \<le> 1 / 2 ^ 1075 then Inl NumericalError else Inr 1)"
    using cygak_normalized_gak_cases [OF assms(1) ok] by (simp only: one)
  from guarded_value [OF this one_not_underflow] show ?thesis .
qed

lemma exp_ge_power2: "2 ^ n \<le> exp (real n)"
proof -
  have "(2::real) \<le> exp 1" using exp_ge_add_one_self [of 1] by simp
  then have "(2::real) ^ n \<le> exp 1 ^ n" by (intro power_mono) simp_all
  also have "\<dots> = exp (real n)" using exp_of_nat_mult [of n "1::real"] by simp
  finally show ?thesis .
qed

text \<open>
  The first example of the docstring of \<^verbatim>\<open>gak\<close>: \<^verbatim>\<open>gak([1, 2, 3], [1., 2., 2., 3.], sigma=2.)\<close>
  is \<^verbatim>\<open>0.839...\<close>.
\<close>

lemma gak_docstring:
  "gak (Flat [1, 2, 3]) (Flat [1, 2, 2, 3]) 2 =
     Inr (raw_gak [[1], [2], [3]] [[1], [2], [2], [3]] 2 /
          sqrt (raw_gak [[1], [2], [3]] [[1], [2], [3]] 2 * raw_gak [[1], [2], [2], [3]] [[1], [2], [2], [3]] 2))"
  "839 / 1000 \<le> raw_gak [[1], [2], [3]] [[1], [2], [2], [3]] 2 /
          sqrt (raw_gak [[1], [2], [3]] [[1], [2], [3]] 2 * raw_gak [[1], [2], [2], [3]] [[1], [2], [2], [3]] 2)"
  "raw_gak [[1], [2], [3]] [[1], [2], [2], [3]] 2 /
          sqrt (raw_gak [[1], [2], [3]] [[1], [2], [3]] 2 * raw_gak [[1], [2], [2], [3]] [[1], [2], [2], [3]] 2)
     < 840 / 1000"
proof -
  let ?v = "raw_gak [[1], [2], [3]] [[1], [2], [2], [3]] 2 /
          sqrt (raw_gak [[1], [2], [3]] [[1], [2], [3]] 2 * raw_gak [[1], [2], [2], [3]] [[1], [2], [2], [3]] 2)"
  show lo: "839 / 1000 \<le> ?v"
    by (rule normalised_bounds(1) [OF raw_gak_docstring raw_gak_docstring_2 raw_gak_docstring_3,
          where u = "840 / 1000"]) (simp_all add: power2_eq_square)
  show "?v < 840 / 1000"
    by (rule normalised_bounds(2) [OF raw_gak_docstring raw_gak_docstring_2 raw_gak_docstring_3,
          where l = "839 / 1000"]) (simp_all add: power2_eq_square)
  have nu: "\<not> ?v \<le> 1 / 2 ^ 1075" using lo underflow_small by linarith
  have "gak (Flat [1, 2, 3]) (Flat [1, 2, 2, 3]) 2 =
          (if ?v \<le> 1 / 2 ^ 1075 then Inl NumericalError else Inr ?v)"
    using cygak_normalized_gak_cases [of 2 "[[1], [2], [3]]" "[[1], [2], [2], [3]]"]
    by (simp add: gak_def shape_ok_def feature_dim_def)
  from guarded_value [OF this nu]
  show "gak (Flat [1, 2, 3]) (Flat [1, 2, 2, 3]) 2 = Inr ?v" .
qed

text \<open>
  The example of the docstring of \<^verbatim>\<open>cdist_gak\<close>: the matrix of
  \<^verbatim>\<open>cdist_gak([[1, 2, 2, 3], [1., 2., 3., 4.]], sigma=2.)\<close> has 1 on the diagonal and
  \<^verbatim>\<open>0.656...\<close> off it.
\<close>

lemma cdist_gak_docstring:
  "cdist_gak cygak_cdist_gak (Flat_rows [[1, 2, 2, 3], [1, 2, 3, 4]]) None 2 =
     Inr [[1, raw_gak [[1], [2], [2], [3]] [[1], [2], [3], [4]] 2 /
              sqrt (raw_gak [[1], [2], [2], [3]] [[1], [2], [2], [3]] 2 *
                    raw_gak [[1], [2], [3], [4]] [[1], [2], [3], [4]] 2)],
          [raw_gak [[1], [2], [2], [3]] [[1], [2], [3], [4]] 2 /
              sqrt (raw_gak [[1], [2], [2], [3]] [[1], [2], [2], [3]] 2 *
                    raw_gak [[1], [2], [3], [4]] [[1], [2], [3], [4]] 2), 1]]"
  "656 / 1000 \<le> raw_gak [[1], [2], [2], [3]] [[1], [2], [3], [4]] 2 /
              sqrt (raw_gak [[1], [2], [2], [3]] [[1], [2], [2], [3]] 2 *
                    raw_gak [[1], [2], [3], [4]] [[1], [2], [3], [4]] 2)"
  "raw_gak [[1], [2], [2], [3]] [[1], [2], [3], [4]] 2 /
              sqrt (raw_gak [[1], [2], [2], [3]] [[1], [2], [2], [3]] 2 *
                    raw_gak [[1], [2], [3], [4]] [[1], [2], [3], [4]] 2) < 657 / 1000"
proof -
  let ?v = "raw_gak [[1], [2], [2], [3]] [[1], [2], [3], [4]] 2 /
              sqrt (raw_gak [[1], [2], [2], [3]] [[1], [2], [2], [3]] 2 *
                    raw_gak [[1], [2], [3], [4]] [[1], [2], [3], [4]] 2)"
  show lo: "656 / 1000 \<le> ?v"
    by (rule normalised_bounds(1) [OF raw_gak_docstring_4 raw_gak_docstring_3 raw_gak_docstring_5,
          where u = "657 / 1000"]) (simp_all add: power2_eq_square)
  show "?v < 657 / 1000"
    by (rule normalised_bounds(2) [OF raw_gak_docstring_4 raw_gak_docstring_3 raw_gak_docstring_5,
          where l = "656 / 1000"]) (simp_all add: power2_eq_square)
  have nu: "\<not> ?v \<le> 1 / 2 ^ 1075" using lo underflow_small by linarith
  have "cygak_normalized_gak [[1], [2], [2], [3]] [[1], [2], [3], [4]] 2 =
          (if ?v \<le> 1 / 2 ^ 1075 then Inl NumericalError else Inr ?v)"
    by (rule cygak_normalized_gak_cases) (simp_all add: shape_ok_def feature_dim_def)
  from guarded_value [OF this nu]
  have pair: "cygak_normalized_gak [[1], [2], [2], [3]] [[1], [2], [3], [4]] 2 = Inr ?v" .
  show "cdist_gak cygak_cdist_gak (Flat_rows [[1, 2, 2, 3], [1, 2, 3, 4]]) None 2 =
          Inr [[1, ?v], [?v, 1]]"
    by (simp add: cdist_gak_def cygak_cdist_gak_def self_matrix_def upper_triangle_def
        mirrored_def upt_rec pair cygak_normalized_gak_self)
qed

section \<open>Properties of the cross-similarity matrices and the wrappers\<close>

lemma sequence_all_Inr:
  "(\<And>x. x \<in> set xs \<Longrightarrow> f x = Inr (g x)) \<Longrightarrow> sequence (map f xs) = Inr (map g xs)"
  by (induction xs) simp_all

lemma mirrored_shape:
  "length (mirrored diag n U) = n" "i < n \<Longrightarrow> length (mirrored diag n U ! i) = n"
  by (simp_all add: mirrored_def)

lemma mirrored_nth:
  "i < n \<Longrightarrow> j < n \<Longrightarrow>
   mirrored diag n U ! i ! j =
     (if i = j then diag else if i < j then U ! i ! (j - i) else U ! j ! (i - j))"
  by (simp add: mirrored_def)

lemma mirrored_symmetric:
  "i < n \<Longrightarrow> j < n \<Longrightarrow> mirrored diag n U ! i ! j = mirrored diag n U ! j ! i"
  by (auto simp: mirrored_nth)

lemma self_matrix_props:
  assumes "self_matrix pair diag ds = Inr M"
  shows "length M = length ds \<and>
         (\<forall>i<length M. length (M ! i) = length M \<and> M ! i ! i = diag \<and>
            (\<forall>j<length M. M ! i ! j = M ! j ! i))"
proof -
  from assms obtain U where M: "M = mirrored diag (length ds) U"
    by (auto simp: self_matrix_def split: sum.splits)
  show ?thesis
    unfolding M by (auto simp: mirrored_shape mirrored_nth)
qed

lemma rect_shape_ok:
  assumes "is_array3 ds" "shape3 ds = (n_ts, sz, d)" "0 < sz" "i < length ds" "j < length ds"
  shows "shape_ok (ds ! i) (ds ! j)"
proof -
  have len: "length (ds ! k) = sz" and pts: "list_all (\<lambda>p. length p = d) (ds ! k)"
    if "k < length ds" for k
    using that is_array3_rows(1,3) [OF assms(1,2)] by (simp_all add: list_all_length)
  have dim: "feature_dim (ds ! k) = d" if "k < length ds" for k
    using len [OF that] pts [OF that] assms(3)
    by (cases "ds ! k") (auto simp: feature_dim_def)
  show ?thesis
    using len [OF assms(4)] len [OF assms(5)] dim [OF assms(4)] dim [OF assms(5)] assms(3)
    by (auto simp: shape_ok_def)
qed

lemma upper_triangle_total:
  assumes "\<And>i j. i \<le> j \<Longrightarrow> j < length ds \<Longrightarrow> \<exists>v. pair (ds ! i) (ds ! j) = Inr v"
  shows "\<exists>U. upper_triangle pair ds = Inr U"
proof -
  define g where "g i j = projr (pair (ds ! i) (ds ! j))" for i j
  have cellv: "pair (ds ! i) (ds ! j) = Inr (g i j)" if "i \<le> j" "j < length ds" for i j
    using assms [OF that] by (auto simp: g_def)
  have row: "sequence (map (\<lambda>j. pair (ds ! i) (ds ! j)) [i..<length ds]) = Inr (map (g i) [i..<length ds])"
    if "i < length ds" for i
    by (rule sequence_all_Inr) (use that cellv in auto)
  have "upper_triangle pair ds = Inr (map (\<lambda>i. map (g i) [i..<length ds]) [0..<length ds])"
    unfolding upper_triangle_def by (rule sequence_all_Inr) (use row in auto)
  then show ?thesis by blast
qed

lemma sequence_Inr_all:
  "sequence (map f xs) = Inr vs \<Longrightarrow> x \<in> set xs \<Longrightarrow> \<exists>v. f x = Inr v"
proof (induction xs arbitrary: vs)
  case Nil
  then show ?case by simp
next
  case (Cons a xs)
  then show ?case by (cases "f a"; cases "sequence (map f xs)") auto
qed

lemma sequence_cases:
  "(\<And>x. x \<in> set xs \<Longrightarrow> (\<exists>v. f x = Inr v) \<or> f x = Inl e) \<Longrightarrow>
   (\<exists>vs. sequence (map f xs) = Inr vs) \<or> sequence (map f xs) = Inl e"
proof (induction xs)
  case Nil
  then show ?case by simp
next
  case (Cons a xs)
  then have "(\<exists>vs. sequence (map f xs) = Inr vs) \<or> sequence (map f xs) = Inl e" by simp
  moreover have "(\<exists>v. f a = Inr v) \<or> f a = Inl e" using Cons.prems by simp
  ultimately show ?case by auto
qed

lemma upper_triangle_cases:
  assumes "\<And>i j. i \<le> j \<Longrightarrow> j < length ds \<Longrightarrow>
             (\<exists>v. pair (ds ! i) (ds ! j) = Inr v) \<or> pair (ds ! i) (ds ! j) = Inl e"
  shows "(\<exists>U. upper_triangle pair ds = Inr U) \<or> upper_triangle pair ds = Inl e"
  unfolding upper_triangle_def
  by (intro sequence_cases) (use assms in auto)

lemma upper_triangle_Inr_all:
  assumes "upper_triangle pair ds = Inr U" "i \<le> j" "j < length ds"
  shows "\<exists>v. pair (ds ! i) (ds ! j) = Inr v"
proof -
  have "i \<in> set [0..<length ds]" using assms(2,3) by simp
  from sequence_Inr_all [OF assms(1) [unfolded upper_triangle_def] this]
  obtain r where "sequence (map (\<lambda>j. pair (ds ! i) (ds ! j)) [i..<length ds]) = Inr r" by blast
  moreover have "j \<in> set [i..<length ds]" using assms(2,3) by simp
  ultimately show ?thesis by (rule sequence_Inr_all)
qed

lemma cydtw_dtw_total: "shape_ok s1 s2 \<Longrightarrow> \<exists>v. cydtw_dtw s1 s2 = Inr v"
  using cydtw_dtw_finite [of s1 s2] by (auto simp: cydtw_dtw_def)

text \<open>
  Claim C6. With \<^verbatim>\<open>dataset2\<close> omitted, the matrix that \<^verbatim>\<open>cdist_dtw\<close> returns is
  square, symmetric and has 0 on its diagonal, and the matrix that \<^verbatim>\<open>cdist_gak\<close>
  returns is square, symmetric and has 1 on its diagonal. For a rectangular dataset of
  non-empty series \<^verbatim>\<open>cdist_dtw\<close> returns a matrix; for \<open>\<sigma> > 0\<close>, \<^verbatim>\<open>cdist_gak\<close> returns
  a matrix or the \<^verbatim>\<open>NumericalError\<close> of a pair, and it returns a matrix exactly when the
  normalised kernel of no pair of distinct series is too small for a positive double.
\<close>

theorem cdist_self_similarity:
  "(cdist_dtw cydtw_cdist_dtw dataset1 None = Inr M \<longrightarrow>
      length M = length (npy3d_time_series_dataset dataset1) \<and>
      (\<forall>i<length M. length (M ! i) = length M \<and> M ! i ! i = 0 \<and>
         (\<forall>j<length M. M ! i ! j = M ! j ! i))) \<and>
   (cdist_gak cygak_cdist_gak dataset1 None sigma = Inr K \<longrightarrow>
      length K = length (npy3d_time_series_dataset dataset1) \<and>
      (\<forall>i<length K. length (K ! i) = length K \<and> K ! i ! i = 1 \<and>
         (\<forall>j<length K. K ! i ! j = K ! j ! i))) \<and>
   (is_array3 (npy3d_time_series_dataset dataset1) \<and>
    shape3 (npy3d_time_series_dataset dataset1) = (n_ts, sz, d) \<and> 0 < sz \<longrightarrow>
      (\<exists>M. cdist_dtw cydtw_cdist_dtw dataset1 None = Inr M) \<and>
      (0 < sigma \<longrightarrow>
         ((\<exists>K. cdist_gak cygak_cdist_gak dataset1 None sigma = Inr K) \<or>
          cdist_gak cygak_cdist_gak dataset1 None sigma = Inl NumericalError) \<and>
         ((\<exists>K. cdist_gak cygak_cdist_gak dataset1 None sigma = Inr K) \<longleftrightarrow>
          (\<forall>j<length (npy3d_time_series_dataset dataset1). \<forall>i<j.
             1 / 2 ^ 1075 <
               raw_gak (npy3d_time_series_dataset dataset1 ! i)
                       (npy3d_time_series_dataset dataset1 ! j) sigma /
               sqrt (raw_gak (npy3d_time_series_dataset dataset1 ! i)
                             (npy3d_time_series_dataset dataset1 ! i) sigma *
                     raw_gak (npy3d_time_series_dataset dataset1 ! j)
                             (npy3d_time_series_dataset dataset1 ! j) sigma)))))"
proof (intro conjI impI)
  assume "cdist_dtw cydtw_cdist_dtw dataset1 None = Inr M"
  then have "self_matrix cydtw_dtw 0 (npy3d_time_series_dataset dataset1) = Inr M"
    by (simp add: cdist_dtw_def cydtw_cdist_dtw_def)
  from self_matrix_props [OF this]
  show "length M = length (npy3d_time_series_dataset dataset1)"
    and "\<forall>i<length M. length (M ! i) = length M \<and> M ! i ! i = 0 \<and>
         (\<forall>j<length M. M ! i ! j = M ! j ! i)"
    by blast+
next
  assume "cdist_gak cygak_cdist_gak dataset1 None sigma = Inr K"
  then have "self_matrix (\<lambda>a b. cygak_normalized_gak a b sigma) 1
               (npy3d_time_series_dataset dataset1) = Inr K"
    by (simp add: cdist_gak_def cygak_cdist_gak_def)
  from self_matrix_props [OF this]
  show "length K = length (npy3d_time_series_dataset dataset1)"
    and "\<forall>i<length K. length (K ! i) = length K \<and> K ! i ! i = 1 \<and>
         (\<forall>j<length K. K ! i ! j = K ! j ! i)"
    by blast+
next
  let ?ds = "npy3d_time_series_dataset dataset1"
  let ?pair = "\<lambda>a b. cygak_normalized_gak a b sigma"
  let ?v = "\<lambda>i j. raw_gak (?ds ! i) (?ds ! j) sigma /
                  sqrt (raw_gak (?ds ! i) (?ds ! i) sigma * raw_gak (?ds ! j) (?ds ! j) sigma)"
  assume a: "is_array3 ?ds \<and> shape3 ?ds = (n_ts, sz, d) \<and> 0 < sz"
  then have ok: "shape_ok (?ds ! i) (?ds ! j)" if "i < length ?ds" "j < length ?ds" for i j
    using that rect_shape_ok by blast
  have "\<exists>U. upper_triangle cydtw_dtw ?ds = Inr U"
    by (rule upper_triangle_total) (use ok cydtw_dtw_total in force)
  then show "\<exists>M. cdist_dtw cydtw_cdist_dtw dataset1 None = Inr M"
    by (auto simp: cdist_dtw_def cydtw_cdist_dtw_def self_matrix_def)
  assume sigma: "0 < sigma"
  have cell: "?pair (?ds ! i) (?ds ! j) =
                (if ?v i j \<le> 1 / 2 ^ 1075 then Inl NumericalError else Inr (?v i j))"
    if "i < length ?ds" "j < length ?ds" for i j
    by (rule cygak_normalized_gak_cases [OF sigma ok [OF that]])
  have diag: "?v i i = 1" if "i < length ?ds" for i
  proof -
    from ok [OF that that] have "?ds ! i \<noteq> []" by (simp add: shape_ok_def)
    then have "0 < raw_gak (?ds ! i) (?ds ! i) sigma" by (simp add: raw_gak_pos)
    then show ?thesis by simp
  qed
  have tri: "(\<exists>U. upper_triangle ?pair ?ds = Inr U) \<or> upper_triangle ?pair ?ds = Inl NumericalError"
  proof (rule upper_triangle_cases)
    fix i j assume "i \<le> j" "j < length ?ds"
    then have "i < length ?ds" "j < length ?ds" by simp_all
    from cell [OF this]
    show "(\<exists>v. ?pair (?ds ! i) (?ds ! j) = Inr v) \<or> ?pair (?ds ! i) (?ds ! j) = Inl NumericalError"
      by (rule guarded_cases)
  qed
  then show "(\<exists>K. cdist_gak cygak_cdist_gak dataset1 None sigma = Inr K) \<or>
             cdist_gak cygak_cdist_gak dataset1 None sigma = Inl NumericalError"
    by (auto simp: cdist_gak_def cygak_cdist_gak_def self_matrix_def)
  have res: "(\<exists>K. cdist_gak cygak_cdist_gak dataset1 None sigma = Inr K) \<longleftrightarrow>
             (\<exists>U. upper_triangle ?pair ?ds = Inr U)"
    by (auto simp: cdist_gak_def cygak_cdist_gak_def self_matrix_def split: sum.splits)
  have "(\<exists>U. upper_triangle ?pair ?ds = Inr U) \<longleftrightarrow> (\<forall>j<length ?ds. \<forall>i<j. 1 / 2 ^ 1075 < ?v i j)"
  proof
    assume "\<exists>U. upper_triangle ?pair ?ds = Inr U"
    then obtain U where U: "upper_triangle ?pair ?ds = Inr U" ..
    show "\<forall>j<length ?ds. \<forall>i<j. 1 / 2 ^ 1075 < ?v i j"
    proof (intro allI impI)
      fix j i assume j: "j < length ?ds" and i: "i < j"
      from upper_triangle_Inr_all [OF U less_imp_le [OF i] j]
      obtain v where v: "?pair (?ds ! i) (?ds ! j) = Inr v" ..
      have "i < length ?ds" using i j by simp
      from guarded_Inr [OF cell [OF this j] v]
      show "1 / 2 ^ 1075 < ?v i j" by (simp only: not_le)
    qed
  next
    assume all: "\<forall>j<length ?ds. \<forall>i<j. 1 / 2 ^ 1075 < ?v i j"
    show "\<exists>U. upper_triangle ?pair ?ds = Inr U"
    proof (rule upper_triangle_total)
      fix i j assume ij: "i \<le> j" and j: "j < length ?ds"
      then have i: "i < length ?ds" by simp
      have "\<not> ?v i j \<le> 1 / 2 ^ 1075"
      proof (cases "i = j")
        case True
        then show ?thesis using one_not_underflow diag [OF j] by metis
      next
        case False
        then have "i < j" using ij by simp
        then have "1 / 2 ^ 1075 < ?v i j" using all j by blast
        then show ?thesis by (simp only: not_le)
      qed
      from guarded_value [OF cell [OF i j] this]
      show "\<exists>v. ?pair (?ds ! i) (?ds ! j) = Inr v" by blast
    qed
  qed
  with res show "(\<exists>K. cdist_gak cygak_cdist_gak dataset1 None sigma = Inr K) \<longleftrightarrow>
                 (\<forall>j<length ?ds. \<forall>i<j. 1 / 2 ^ 1075 < ?v i j)"
    by (simp only:)
qed

text \<open>
  The first example of the docstring of \<^verbatim>\<open>cdist_dtw\<close>.
\<close>

lemma cdist_dtw_example:
  "cdist_dtw cydtw_cdist_dtw (Flat_rows [[1, 2, 2, 3], [1, 2, 3, 4]]) None = Inr [[0, 1], [1, 0]]"
  by (simp add: cdist_dtw_def cydtw_cdist_dtw_def self_matrix_def upper_triangle_def mirrored_def
      cydtw_dtw_def shape_ok_def feature_dim_def cost_matrix_def first_row_def
      next_row_def sqeuclidean_def cost_min_def cell_def Let_def upt_rec)

text \<open>
  The hypotheses of C6 hold for the dataset of the docstrings, with the bandwidth of the
  docstring of \<^verbatim>\<open>cdist_gak\<close>.
\<close>

theorem cdist_self_similarity_witness:
  "cdist_dtw cydtw_cdist_dtw (Flat_rows [[1, 2, 2, 3], [1, 2, 3, 4]]) None = Inr [[0, 1], [1, 0]] \<and>
   cdist_gak cygak_cdist_gak (Flat_rows [[1, 2, 2, 3], [1, 2, 3, 4]]) None 2 = Inr [[1, raw_gak [[1], [2], [2], [3]] [[1], [2], [3], [4]] 2 /
          sqrt (raw_gak [[1], [2], [2], [3]] [[1], [2], [2], [3]] 2 *
                raw_gak [[1], [2], [3], [4]] [[1], [2], [3], [4]] 2)], [raw_gak [[1], [2], [2], [3]] [[1], [2], [3], [4]] 2 /
          sqrt (raw_gak [[1], [2], [2], [3]] [[1], [2], [2], [3]] 2 *
                raw_gak [[1], [2], [3], [4]] [[1], [2], [3], [4]] 2), 1]] \<and>
   656 / 1000 \<le> raw_gak [[1], [2], [2], [3]] [[1], [2], [3], [4]] 2 /
          sqrt (raw_gak [[1], [2], [2], [3]] [[1], [2], [2], [3]] 2 *
                raw_gak [[1], [2], [3], [4]] [[1], [2], [3], [4]] 2) \<and> raw_gak [[1], [2], [2], [3]] [[1], [2], [3], [4]] 2 /
          sqrt (raw_gak [[1], [2], [2], [3]] [[1], [2], [2], [3]] 2 *
                raw_gak [[1], [2], [3], [4]] [[1], [2], [3], [4]] 2) < 657 / 1000 \<and>
   is_array3 (npy3d_time_series_dataset (Flat_rows [[1, 2, 2, 3], [1, 2, 3, 4]])) \<and>
   shape3 (npy3d_time_series_dataset (Flat_rows [[1, 2, 2, 3], [1, 2, 3, 4]])) = (2, 4, 1) \<and> (0::nat) < 4 \<and> (0::real) < 2 \<and>
   length [[0, 1], [1, 0::real]] = length (npy3d_time_series_dataset (Flat_rows [[1, 2, 2, 3], [1, 2, 3, 4]])) \<and>
   length [[1, raw_gak [[1], [2], [2], [3]] [[1], [2], [3], [4]] 2 /
          sqrt (raw_gak [[1], [2], [2], [3]] [[1], [2], [2], [3]] 2 *
                raw_gak [[1], [2], [3], [4]] [[1], [2], [3], [4]] 2)], [raw_gak [[1], [2], [2], [3]] [[1], [2], [3], [4]] 2 /
          sqrt (raw_gak [[1], [2], [2], [3]] [[1], [2], [2], [3]] 2 *
                raw_gak [[1], [2], [3], [4]] [[1], [2], [3], [4]] 2), 1]] = length (npy3d_time_series_dataset (Flat_rows [[1, 2, 2, 3], [1, 2, 3, 4]])) \<and>
   (\<exists>M. cdist_dtw cydtw_cdist_dtw (Flat_rows [[1, 2, 2, 3], [1, 2, 3, 4]]) None = Inr M) \<and>
   (\<exists>K. cdist_gak cygak_cdist_gak (Flat_rows [[1, 2, 2, 3], [1, 2, 3, 4]]) None 2 = Inr K)"
proof -
  have h1: "cdist_dtw cydtw_cdist_dtw (Flat_rows [[1, 2, 2, 3], [1, 2, 3, 4]]) None = Inr [[0, 1], [1, 0]]"
    by (rule cdist_dtw_example)
  have h3: "is_array3 (npy3d_time_series_dataset (Flat_rows [[1, 2, 2, 3], [1, 2, 3, 4]])) \<and>
      shape3 (npy3d_time_series_dataset (Flat_rows [[1, 2, 2, 3], [1, 2, 3, 4]])) = (2, 4, 1) \<and> (0::nat) < 4"
    by (simp add: is_array3_def shape3_def)
  have h4: "(0::real) < 2" by simp
  from h1 cdist_gak_docstring h3 h4
    cdist_self_similarity [where ?dataset1.0 = "Flat_rows [[1, 2, 2, 3], [1, 2, 3, 4]]"
      and M = "[[0, 1], [1, 0]]" and sigma = 2 and n_ts = 2 and sz = 4 and d = 1
      and K = "[[1, raw_gak [[1], [2], [2], [3]] [[1], [2], [3], [4]] 2 /
          sqrt (raw_gak [[1], [2], [2], [3]] [[1], [2], [2], [3]] 2 *
                raw_gak [[1], [2], [3], [4]] [[1], [2], [3], [4]] 2)], [raw_gak [[1], [2], [2], [3]] [[1], [2], [3], [4]] 2 /
          sqrt (raw_gak [[1], [2], [2], [3]] [[1], [2], [2], [3]] 2 *
                raw_gak [[1], [2], [3], [4]] [[1], [2], [3], [4]] 2), 1]]"]
  show ?thesis by blast
qed

text \<open>
  Claim C9. Whatever the engine and the backtrace are, the score that \<^verbatim>\<open>lr_dtw_path\<close>
  returns is the value of \<^verbatim>\<open>lr_dtw\<close> on the same arguments; an error of \<^verbatim>\<open>lr_dtw\<close>
  is an error of \<^verbatim>\<open>lr_dtw_path\<close>; and \<^verbatim>\<open>lr_dtw\<close> returns exactly the first component
  of the result of the engine, dropping the probability matrix.
\<close>

theorem lr_dtw_score:
  "(\<forall>path sim. lr_dtw_path cylrdtw_lr_dtw cylrdtw_lr_dtw_backtrace s1 s2 gamma = Inr (path, sim) \<longrightarrow>
       lr_dtw cylrdtw_lr_dtw s1 s2 gamma = Inr sim) \<and>
   (\<forall>e. lr_dtw cylrdtw_lr_dtw s1 s2 gamma = Inl e \<longrightarrow>
       lr_dtw_path cylrdtw_lr_dtw cylrdtw_lr_dtw_backtrace s1 s2 gamma = Inl e) \<and>
   (\<forall>sim. lr_dtw cylrdtw_lr_dtw s1 s2 gamma = Inr sim \<longleftrightarrow>
       (\<exists>probas. cylrdtw_lr_dtw (npy2d_time_series s1) (npy2d_time_series s2) gamma =
          Inr (sim, probas)))"
  by (auto simp: lr_dtw_def lr_dtw_path_def split: sum.splits prod.splits)

text \<open>
  An engine and a backtrace for which \<^verbatim>\<open>lr_dtw_path\<close> returns.
\<close>

theorem lr_dtw_score_witness:
  "lr_dtw_path (\<lambda>a b g. Inr (g, [[1::real]])) (\<lambda>p. Inr [(0::nat, 0::nat)]) (Flat [1]) (Flat [1]) 0 =
     Inr ([(0, 0)], 0) \<and>
   lr_dtw (\<lambda>a b g. Inr (g, [[1::real]])) (Flat [1]) (Flat [1]) 0 = Inr 0"
proof -
  have h: "lr_dtw_path (\<lambda>a b g. Inr (g, [[1::real]])) (\<lambda>p. Inr [(0::nat, 0::nat)]) (Flat [1]) (Flat [1]) 0 =
     (Inr ([(0, 0)], 0) :: error + ((nat \<times> nat) list \<times> real))"
    by (simp add: lr_dtw_path_def)
  from h lr_dtw_score [of "\<lambda>a b g. Inr (g, [[1::real]])" "\<lambda>p. Inr [(0::nat, 0::nat)]" "Flat [1]" "Flat [1]" 0]
  show ?thesis by blast
qed

text \<open>
  Claim C10. Whatever the engine is, \<^verbatim>\<open>cdist_dtw\<close> and \<^verbatim>\<open>cdist_gak\<close> call it with
  \<^verbatim>\<open>self_similarity = False\<close> for every \<^verbatim>\<open>dataset2\<close> that is passed, also for one equal
  to \<^verbatim>\<open>dataset1\<close>, and with \<^verbatim>\<open>self_similarity = True\<close> only when it is omitted.
\<close>

theorem cdist_self_similarity_only_when_omitted:
  "cdist_dtw cydtw_cdist dataset1 (Some dataset2) =
     cydtw_cdist (npy3d_time_series_dataset dataset1) (npy3d_time_series_dataset dataset2) False \<and>
   cdist_dtw cydtw_cdist dataset1 (Some dataset1) =
     cydtw_cdist (npy3d_time_series_dataset dataset1) (npy3d_time_series_dataset dataset1) False \<and>
   cdist_dtw cydtw_cdist dataset1 None =
     cydtw_cdist (npy3d_time_series_dataset dataset1) (npy3d_time_series_dataset dataset1) True \<and>
   cdist_gak cygak_cdist dataset1 (Some dataset2) sigma =
     cygak_cdist (npy3d_time_series_dataset dataset1) (npy3d_time_series_dataset dataset2) sigma False \<and>
   cdist_gak cygak_cdist dataset1 (Some dataset1) sigma =
     cygak_cdist (npy3d_time_series_dataset dataset1) (npy3d_time_series_dataset dataset1) sigma False \<and>
   cdist_gak cygak_cdist dataset1 None sigma =
     cygak_cdist (npy3d_time_series_dataset dataset1) (npy3d_time_series_dataset dataset1) sigma True"
  by (simp add: cdist_dtw_def cdist_gak_def)

text \<open>
  With the engines of the specification, a \<^verbatim>\<open>dataset2\<close> that is passed gets the full
  matrix, every cell computed by the pairwise engine.
\<close>

lemma explicit_dataset2_full_matrix:
  "cdist_dtw cydtw_cdist_dtw dataset1 (Some dataset2) =
     cross_matrix cydtw_dtw (npy3d_time_series_dataset dataset1) (npy3d_time_series_dataset dataset2)"
  "cdist_gak cygak_cdist_gak dataset1 (Some dataset2) sigma =
     cross_matrix (\<lambda>a b. cygak_normalized_gak a b sigma)
       (npy3d_time_series_dataset dataset1) (npy3d_time_series_dataset dataset2)"
  by (simp_all add: cdist_dtw_def cdist_gak_def cydtw_cdist_dtw_def cygak_cdist_gak_def)

section \<open>The normalised GAK is bounded by one\<close>

lemma quad_form_add:
  "quad_form (\<lambda>x y. k x y + k' x y) zs = quad_form k zs + quad_form k' zs"
  by (simp add: quad_form_def algebra_simps sum_list_addf case_prod_unfold)

lemma quad_form_scale:
  "quad_form (\<lambda>x y. a * k x y) zs = a * quad_form k zs"
  by (simp add: quad_form_def algebra_simps sum_list_const_mult case_prod_unfold)

lemma quad_form_rank_one:
  "quad_form (\<lambda>x y. f x * f y) zs = (\<Sum>(c, x) \<leftarrow> zs. c * f x)\<^sup>2"
proof -
  let ?S = "\<Sum>(d, y) \<leftarrow> zs. d * f y"
  have inner: "(\<Sum>(d, y) \<leftarrow> zs. c * d * (f x * f y)) = (c * f x) * ?S" for c x
    by (simp add: sum_list_const_mult [symmetric] case_prod_unfold mult_ac)
  have "quad_form (\<lambda>x y. f x * f y) zs = (\<Sum>(c, x) \<leftarrow> zs. (c * f x) * ?S)"
    by (simp add: quad_form_def inner)
  also have "\<dots> = (\<Sum>(c, x) \<leftarrow> zs. c * f x) * ?S"
    by (simp add: sum_list_mult_const case_prod_unfold)
  finally show ?thesis by (simp add: power2_eq_square)
qed

lemma quad_form_times_rank_one:
  "quad_form (\<lambda>x y. k x y * (f x * f y)) zs = quad_form k (map (\<lambda>(c, x). (c * f x, x)) zs)"
  by (simp add: quad_form_def comp_def case_prod_unfold algebra_simps)

lemma tendsto_sum_list:
  fixes f :: "nat \<Rightarrow> 'b \<Rightarrow> real"
  assumes "\<And>x. x \<in> set xs \<Longrightarrow> (\<lambda>n. f n x) \<longlonglongrightarrow> g x"
  shows "(\<lambda>n. \<Sum>x \<leftarrow> xs. f n x) \<longlonglongrightarrow> (\<Sum>x \<leftarrow> xs. g x)"
  using assms
proof (induction xs)
  case Nil
  then show ?case by simp
next
  case (Cons a xs)
  have "(\<lambda>n. f n a) \<longlonglongrightarrow> g a" using Cons.prems by simp
  moreover have "(\<lambda>n. \<Sum>x \<leftarrow> xs. f n x) \<longlonglongrightarrow> (\<Sum>x \<leftarrow> xs. g x)"
    using Cons by simp
  ultimately show ?case by (simp add: tendsto_add)
qed

lemma quad_form_tendsto:
  assumes "\<And>x y. (\<lambda>n. k n x y) \<longlonglongrightarrow> k' x y"
  shows "(\<lambda>n. quad_form (k n) zs) \<longlonglongrightarrow> quad_form k' zs"
  unfolding quad_form_def case_prod_unfold
  by (intro tendsto_sum_list tendsto_mult tendsto_const assms)

lemma psd_limit:
  assumes "\<And>n. psd (k n)" and "\<And>x y. (\<lambda>n. k n x y) \<longlonglongrightarrow> k' x y"
  shows "psd k'"
  unfolding psd_def
proof
  fix zs
  have lim: "(\<lambda>n. quad_form (k n) zs) \<longlonglongrightarrow> quad_form k' zs"
    by (rule quad_form_tendsto) (rule assms(2))
  have "0 \<le> quad_form (k n) zs" for n using assms(1) by (simp add: psd_def)
  then show "0 \<le> quad_form k' zs" by (intro LIMSEQ_le_const [OF lim]) simp
qed

lemma psd_add: "psd k \<Longrightarrow> psd k' \<Longrightarrow> psd (\<lambda>x y. k x y + k' x y)"
  by (simp add: psd_def quad_form_add)

lemma psd_scale: "0 \<le> a \<Longrightarrow> psd k \<Longrightarrow> psd (\<lambda>x y. a * k x y)"
  by (simp add: psd_def quad_form_scale)

lemma psd_rank_one: "psd (\<lambda>x y. f x * f y)"
  by (simp add: psd_def quad_form_rank_one)

lemma psd_factor_rank_one: "psd_factor (\<lambda>x y. f x * f y)"
  by (simp add: psd_factor_def psd_def quad_form_times_rank_one)

lemma psd_factor_add:
  "psd_factor k \<Longrightarrow> psd_factor k' \<Longrightarrow> psd_factor (\<lambda>x y. k x y + k' x y)"
  unfolding psd_factor_def by (simp add: distrib_left psd_add)

lemma psd_factor_scale:
  assumes "0 \<le> a" "psd_factor k"
  shows "psd_factor (\<lambda>x y. a * k x y)"
  unfolding psd_factor_def
proof (intro allI impI)
  fix k1 :: "'a \<Rightarrow> 'a \<Rightarrow> real" assume "psd k1"
  then have "psd (\<lambda>x y. a * (k1 x y * k x y))"
    using assms by (intro psd_scale) (simp_all add: psd_factor_def)
  then show "psd (\<lambda>x y. k1 x y * (a * k x y))" by (simp add: mult.left_commute)
qed

lemma psd_factor_mult:
  assumes "psd_factor k" "psd_factor k'"
  shows "psd_factor (\<lambda>x y. k x y * k' x y)"
  unfolding psd_factor_def
proof (intro allI impI)
  fix k1 :: "'a \<Rightarrow> 'a \<Rightarrow> real" assume "psd k1"
  then have "psd (\<lambda>x y. k1 x y * k x y)" using assms(1) by (simp add: psd_factor_def)
  then have "psd (\<lambda>x y. (k1 x y * k x y) * k' x y)" using assms(2) by (simp add: psd_factor_def)
  then show "psd (\<lambda>x y. k1 x y * (k x y * k' x y))" by (simp add: mult.assoc)
qed

lemma psd_factor_limit:
  assumes "\<And>n. psd_factor (k n)" and "\<And>x y. (\<lambda>n. k n x y) \<longlonglongrightarrow> k' x y"
  shows "psd_factor k'"
  unfolding psd_factor_def
proof (intro allI impI)
  fix k1 :: "'a \<Rightarrow> 'a \<Rightarrow> real" assume k1: "psd k1"
  show "psd (\<lambda>x y. k1 x y * k' x y)"
  proof (rule psd_limit)
    show "psd (\<lambda>x y. k1 x y * k n x y)" for n using assms(1) k1 by (simp add: psd_factor_def)
    show "(\<lambda>n. k1 x y * k n x y) \<longlonglongrightarrow> k1 x y * k' x y" for x y
      by (intro tendsto_mult tendsto_const assms(2))
  qed
qed

lemma psd_factor_sum:
  "(\<And>i. i < n \<Longrightarrow> psd_factor (k i)) \<Longrightarrow> psd_factor (\<lambda>x y. \<Sum>i<(n::nat). k i x y)"
proof (induction n)
  case 0
  have "psd_factor (\<lambda>x y. (\<lambda>_. 0::real) x * (\<lambda>_. 0) y)" by (rule psd_factor_rank_one)
  then show ?case by simp
next
  case (Suc n)
  then show ?case by (simp add: psd_factor_add)
qed

lemma psd_factor_power: "psd_factor k \<Longrightarrow> psd_factor (\<lambda>x y. k x y ^ n)"
proof (induction n)
  case 0
  have "psd_factor (\<lambda>x y. (\<lambda>_. 1::real) x * (\<lambda>_. 1) y)" by (rule psd_factor_rank_one)
  then show ?case by simp
next
  case (Suc n)
  then show ?case by (simp add: psd_factor_mult)
qed

lemma psd_factor_psd:
  assumes "psd_factor k" shows "psd k"
proof -
  have "psd (\<lambda>x y. (\<lambda>_. 1::real) x * (\<lambda>_. 1) y)" by (rule psd_rank_one)
  with assms have "psd (\<lambda>x y. ((\<lambda>_. 1::real) x * (\<lambda>_. 1) y) * k x y)"
    unfolding psd_factor_def by blast
  then show ?thesis by simp
qed

lemma coord_Cons: "coord 0 (s # a) = s" "coord (Suc t) (s # a) = coord t a"
  by (simp_all add: coord_def)

lemma coord_Nil: "coord t [] = 0"
  by (simp add: coord_def)

lemma inner_prod_coords:
  "min (length a) (length b) \<le> n \<Longrightarrow> inner_prod a b = (\<Sum>t<n. coord t a * coord t b)"
proof (induction a arbitrary: b n)
  case Nil
  then show ?case by (simp add: inner_prod_def coord_Nil)
next
  case (Cons s a)
  show ?case
  proof (cases b)
    case Nil
    then show ?thesis by (simp add: inner_prod_def coord_Nil)
  next
    case (Cons t b')
    with Cons.prems obtain n' where n: "n = Suc n'" and le: "min (length a) (length b') \<le> n'"
      by (cases n) auto
    have "inner_prod (s # a) b = s * t + inner_prod a b'"
      using Cons by (simp add: inner_prod_def)
    also have "inner_prod a b' = (\<Sum>t<n'. coord t a * coord t b')"
      by (rule Cons.IH [OF le])
    also have "s * t + (\<Sum>t<n'. coord t a * coord t b') = (\<Sum>t<n. coord t (s # a) * coord t b)"
      unfolding n Cons by (simp add: sum.lessThan_Suc_shift coord_Cons del: sum.lessThan_Suc)
    finally show ?thesis .
  qed
qed

lemma norm_sq_nonneg: "0 \<le> norm_sq a"
  unfolding norm_sq_def by (intro sum_list_nonneg) auto

lemma inner_prod_bound: "2 * inner_prod a b \<le> norm_sq a + norm_sq b"
proof (induction a arbitrary: b)
  case Nil
  then show ?case using norm_sq_nonneg [of b] by (simp add: inner_prod_def norm_sq_def)
next
  case (Cons s a)
  show ?case
  proof (cases b)
    case Nil
    then show ?thesis using norm_sq_nonneg [of "s # a"] by (simp add: inner_prod_def norm_sq_def)
  next
    case (Cons t b')
    have "2 * (s * t) \<le> s\<^sup>2 + t\<^sup>2" using sum_squares_bound [of s t] by simp
    moreover have "2 * inner_prod a b' \<le> norm_sq a + norm_sq b'" by (rule Cons.IH)
    ultimately show ?thesis using Cons by (simp add: inner_prod_def norm_sq_def)
  qed
qed

lemma sqeuclidean_expand:
  "length a = length b \<Longrightarrow> sqeuclidean a b = norm_sq a + norm_sq b - 2 * inner_prod a b"
  by (induction a b rule: list_induct2)
     (simp_all add: sqeuclidean_def norm_sq_def inner_prod_def power2_eq_square algebra_simps)

lemma gauss_range: "0 < gauss sigma a b" "gauss sigma a b \<le> 1"
proof -
  show "0 < gauss sigma a b" by (simp add: gauss_def)
  have "0 \<le> (norm_sq a + norm_sq b - 2 * inner_prod a b) / (2 * sigma\<^sup>2)"
    using inner_prod_bound [of a b] by (intro divide_nonneg_nonneg) simp_all
  moreover have "gauss sigma a b =
      exp (- ((norm_sq a + norm_sq b - 2 * inner_prod a b) / (2 * sigma\<^sup>2)))"
    by (simp only: gauss_def minus_divide_left)
  ultimately show "gauss sigma a b \<le> 1" by simp
qed

lemma psd_factor_inner: "psd_factor (\<lambda>x y. inner_prod (h x) (h y))"
proof (rule psd_factor_limit)
  show "psd_factor (\<lambda>x y. \<Sum>t<n. coord t (h x) * coord t (h y))" for n
    by (intro psd_factor_sum psd_factor_rank_one)
  show "(\<lambda>n. \<Sum>t<n. coord t (h x) * coord t (h y)) \<longlonglongrightarrow> inner_prod (h x) (h y)" for x y
  proof (rule tendsto_eventually)
    show "\<forall>\<^sub>F n in sequentially. (\<Sum>t<n. coord t (h x) * coord t (h y)) = inner_prod (h x) (h y)"
      unfolding eventually_sequentially
      by (intro exI [of _ "min (length (h x)) (length (h y))"] allI impI)
         (simp add: inner_prod_coords)
  qed
qed

lemma psd_factor_exp:
  assumes "psd_factor k" "0 \<le> a"
  shows "psd_factor (\<lambda>x y. exp (a * k x y))"
proof (rule psd_factor_limit)
  show "psd_factor (\<lambda>x y. \<Sum>n<N. (a ^ n / fact n) * k x y ^ n)" for N
    by (intro psd_factor_sum psd_factor_scale psd_factor_power assms) (simp add: assms)
  show "(\<lambda>N. \<Sum>n<N. (a ^ n / fact n) * k x y ^ n) \<longlonglongrightarrow> exp (a * k x y)" for x y
    using exp_converges [of "a * k x y"]
    by (simp add: sums_def power_mult_distrib field_simps)
qed

lemma psd_factor_gauss: "psd_factor (\<lambda>x y. gauss sigma (h x) (h y))"
proof -
  let ?f = "\<lambda>x. exp (- norm_sq (h x) / (2 * sigma\<^sup>2))"
  have "psd_factor (\<lambda>x y. (?f x * ?f y) * exp ((1 / sigma\<^sup>2) * inner_prod (h x) (h y)))"
    by (intro psd_factor_mult psd_factor_rank_one psd_factor_exp psd_factor_inner) simp
  moreover have "(?f x * ?f y) * exp ((1 / sigma\<^sup>2) * inner_prod (h x) (h y)) = gauss sigma (h x) (h y)"
    for x y
  proof -
    have "- norm_sq (h x) / (2 * sigma\<^sup>2) + - norm_sq (h y) / (2 * sigma\<^sup>2) +
          (1 / sigma\<^sup>2) * inner_prod (h x) (h y) =
          - (norm_sq (h x) + norm_sq (h y) - 2 * inner_prod (h x) (h y)) / (2 * sigma\<^sup>2)"
      by (cases "sigma = 0") (simp_all add: field_simps)
    then show ?thesis by (simp only: gauss_def exp_add [symmetric])
  qed
  ultimately show ?thesis by simp
qed

lemma psd_factor_chi: "psd_factor (\<lambda>x y. chi sigma (h x) (h y))"
proof -
  have "psd_factor (\<lambda>x y. (1 / 2) * gauss sigma (h x) (h y))"
    by (intro psd_factor_scale psd_factor_gauss) simp
  then show ?thesis by (simp add: chi_def)
qed

lemma chi_range: "0 < chi sigma a b" "chi sigma a b < 1"
  using gauss_range [of sigma a b] by (simp_all add: chi_def)

lemma local_kernel_chi:
  assumes "length a = length b"
  shows "local_kernel sigma a b = chi sigma a b / (1 - chi sigma a b)"
proof -
  define g where "g = gauss sigma a b"
  have e: "exp (- sqeuclidean a b / (2 * sigma\<^sup>2)) = g"
    by (simp add: g_def gauss_def sqeuclidean_expand [OF assms])
  have nz: "2 - g \<noteq> 0"
    using gauss_range [of sigma a b] by (simp add: g_def)
  have "1 - g / 2 = (2 - g) / 2" by (simp add: field_simps)
  then have "(g / 2) / (1 - g / 2) = (g / 2) / ((2 - g) / 2)" by simp
  also have "\<dots> = g / (2 - g)" by simp
  finally show ?thesis unfolding local_kernel_def e chi_def g_def [symmetric] by simp
qed

lemma stretch_sum_nonneg: "0 \<le> stretch_sum sigma l x y"
proof (induction l arbitrary: x y)
  case 0
  then show ?case by simp
next
  case (Suc l)
  have "0 \<le> chi sigma (last x) (last y)" using chi_range(1) [of sigma "last x" "last y"] by simp
  then show ?case using Suc by (simp add: add_nonneg_nonneg)
qed

lemma sum_list_doubled:
  fixes g :: "real \<times> 'a \<Rightarrow> real"
  shows "(\<Sum>p \<leftarrow> concat (map (\<lambda>(c, x). [(c, x), (c, f x)]) zs). g p) =
         (\<Sum>(c, x) \<leftarrow> zs. g (c, x) + g (c, f x))"
  by (induction zs) auto

lemma quad_form_doubled:
  "quad_form k (concat (map (\<lambda>(c, x). [(c, x), (c, f x)]) zs)) =
   quad_form (\<lambda>x y. k x y + k (f x) y + k x (f y) + k (f x) (f y)) zs"
proof -
  let ?D = "concat (map (\<lambda>(c, x). [(c, x), (c, f x)]) zs)"
  have "quad_form k ?D = (\<Sum>p \<leftarrow> ?D. \<Sum>q \<leftarrow> ?D. fst p * fst q * k (snd p) (snd q))"
    by (simp add: quad_form_def case_prod_unfold)
  also have "\<dots> = (\<Sum>(c, x) \<leftarrow> zs.
      (\<Sum>(d, y) \<leftarrow> zs. c * d * k x y + c * d * k x (f y)) +
      (\<Sum>(d, y) \<leftarrow> zs. c * d * k (f x) y + c * d * k (f x) (f y)))"
    by (simp only: sum_list_doubled fst_conv snd_conv)
  also have "\<dots> = quad_form (\<lambda>x y. k x y + k (f x) y + k x (f y) + k (f x) (f y)) zs"
    by (simp add: quad_form_def case_prod_unfold sum_list_addf [symmetric] algebra_simps)
  finally show ?thesis .
qed

lemma psd_doubled:
  assumes "psd k"
  shows "psd (\<lambda>x y. k x y + k (f x) y + k x (f y) + k (f x) (f y))"
  unfolding psd_def using assms by (simp add: quad_form_doubled [symmetric] psd_def)

text \<open>
  Each stretch sum is a positive semi-definite kernel on series.
\<close>

lemma psd_stretch_sum: "psd (stretch_sum sigma l)"
proof (induction l)
  case 0
  have "psd (\<lambda>x y. (if x = [] then 1 else 0) * (if y = [] then 1 else (0::real)))"
    by (rule psd_rank_one)
  moreover have "stretch_sum sigma 0 =
      (\<lambda>x y. (if x = [] then 1 else 0) * (if y = [] then 1 else (0::real)))"
    by (intro ext) simp
  ultimately show ?case by simp
next
  case (Suc l)
  let ?T = "\<lambda>x y. stretch_sum sigma l x y + stretch_sum sigma l (butlast x) y +
            stretch_sum sigma l x (butlast y) + stretch_sum sigma l (butlast x) (butlast y)"
  let ?ind = "\<lambda>x::series. if x = [] then 0 else (1::real)"
  let ?Q = "\<lambda>x y. (?ind x * ?ind y) * chi sigma (last x) (last y)"
  have "psd ?T" using Suc by (rule psd_doubled)
  moreover have "psd_factor ?Q"
    by (intro psd_factor_mult psd_factor_rank_one psd_factor_chi)
  ultimately have "psd (\<lambda>x y. ?T x y * ?Q x y)" unfolding psd_factor_def by blast
  moreover have "stretch_sum sigma (Suc l) = (\<lambda>x y. ?T x y * ?Q x y)"
    by (intro ext) simp
  ultimately show ?case by simp
qed

lemma psd_sum: "(\<And>i. i < n \<Longrightarrow> psd (k i)) \<Longrightarrow> psd (\<lambda>x y. \<Sum>i<(n::nat). k i x y)"
proof (induction n)
  case 0
  have "psd (\<lambda>x y. (\<lambda>_. 0::real) x * (\<lambda>_. 0) y)" by (rule psd_rank_one)
  then show ?case by simp
next
  case (Suc n)
  then show ?case by (simp add: psd_add)
qed

lemma geometric_recursion_sums:
  fixes a b :: "nat \<Rightarrow> real"
  assumes c: "0 \<le> c" "c < 1"
    and b: "\<And>n. 0 \<le> b n" "b sums B"
    and a0: "a 0 = 0" and aS: "\<And>n. a (Suc n) = c * (a n + b n)"
  shows "a sums (c * B / (1 - c))"
proof -
  have a_nonneg: "0 \<le> a n" for n
    by (induction n) (simp_all add: a0 aS c b)
  have bsum: "(\<Sum>k<n. b k) \<le> B" for n
    using b by (intro sum_le_suminf [where f = b, simplified sums_unique [OF b(2), symmetric]])
               (auto simp: sums_iff)
  have B: "0 \<le> B" using bsum [of 0] by simp
  have shift: "(\<Sum>k<Suc n. a k) = c * ((\<Sum>k<n. a k) + (\<Sum>k<n. b k))" for n
    by (simp add: sum.lessThan_Suc_shift a0 aS sum_distrib_left sum.distrib distrib_left
        del: sum.lessThan_Suc)
  have bound: "(\<Sum>k<n. a k) \<le> c * B / (1 - c)" for n
  proof (induction n)
    case 0
    then show ?case using c B by simp
  next
    case (Suc n)
    have "(\<Sum>k<Suc n. a k) \<le> c * (c * B / (1 - c) + B)"
      unfolding shift using Suc bsum [of n] c by (intro mult_left_mono add_mono) simp_all
    also have "c * (c * B / (1 - c) + B) = c * B / (1 - c)"
      using c by (simp add: field_simps)
    finally show ?case .
  qed
  have "summable a"
    by (rule summableI_nonneg_bounded [where x = "c * B / (1 - c)"]) (use a_nonneg bound in auto)
  then obtain S where S: "a sums S" by (auto simp: summable_def)
  then have "(\<lambda>n. a (Suc n)) sums (S - a 0)"
    using sums_Suc_iff [of a "S - a 0"] by simp
  then have l: "(\<lambda>n. c * (a n + b n)) sums S" by (simp add: a0 aS)
  have r: "(\<lambda>n. c * (a n + b n)) sums (c * (S + B))"
    by (intro sums_mult sums_add S b)
  have "S = c * (S + B)" using l r by (rule sums_unique2)
  then have "S = c * B / (1 - c)" using c by (simp add: field_simps)
  with S show ?thesis by simp
qed

lemma stretch_sum_Nil:
  "stretch_sum sigma l [] [] = (if l = 0 then 1 else 0)"
  "y \<noteq> [] \<Longrightarrow> stretch_sum sigma l [] y = 0"
  "x \<noteq> [] \<Longrightarrow> stretch_sum sigma l x [] = 0"
  by (cases l; simp)+

text \<open>
  Every entry of the GAK grid is the sum, over the common length, of the stretch sums of
  the two prefixes.
\<close>

lemma stretch_sums_gak_grid:
  "list_all (\<lambda>p. length p = d) x \<Longrightarrow> list_all (\<lambda>p. length p = d) y \<Longrightarrow>
   i \<le> length x \<Longrightarrow> j \<le> length y \<Longrightarrow>
   (\<lambda>l. stretch_sum sigma l (take i x) (take j y)) sums gak_grid sigma x y i j"
proof (induction sigma x y i j rule: gak_grid.induct)
  case (1 sigma s1 s2)
  show ?case using sums_single [of 0 "\<lambda>_. 1::real"] by (simp add: stretch_sum_Nil)
next
  case (2 sigma s1 s2 j)
  then have "take (Suc j) s2 \<noteq> []" by auto
  then show ?case by (simp add: stretch_sum_Nil del: take_Suc_Cons)
next
  case (3 sigma s1 s2 i)
  then have "take (Suc i) s1 \<noteq> []" by auto
  then show ?case by (simp add: stretch_sum_Nil del: take_Suc_Cons)
next
  case (4 sigma s1 s2 i j)
  let ?x = "take (Suc i) s1" and ?y = "take (Suc j) s2"
  let ?c = "chi sigma (s1 ! i) (s2 ! j)"
  let ?a = "\<lambda>l. stretch_sum sigma l ?x ?y"
  let ?b = "\<lambda>l. stretch_sum sigma l (take i s1) ?y + stretch_sum sigma l ?x (take j s2) +
                stretch_sum sigma l (take i s1) (take j s2)"
  let ?B = "gak_grid sigma s1 s2 i (Suc j) + gak_grid sigma s1 s2 (Suc i) j + gak_grid sigma s1 s2 i j"
  from 4 have i: "i < length s1" and j: "j < length s2" by simp_all
  have x: "?x = take i s1 @ [s1 ! i]" and y: "?y = take j s2 @ [s2 ! j]"
    using i j by (simp_all add: take_Suc_conv_app_nth)
  have len: "length (s1 ! i) = length (s2 ! j)"
    using 4(4,5) i j by (simp add: list_all_length)
  have b: "?b sums ?B"
    using 4 i j by (intro sums_add) simp_all
  have "?a sums (?c * ?B / (1 - ?c))"
  proof (rule geometric_recursion_sums [where b = ?b])
    show "0 \<le> ?c" "?c < 1" using chi_range [of sigma "s1 ! i" "s2 ! j"] by simp_all
    show "0 \<le> ?b n" for n by (intro add_nonneg_nonneg stretch_sum_nonneg)
    show "?b sums ?B" by (rule b)
    show "?a 0 = 0" by (simp add: x)
    show "?a (Suc n) = ?c * (?a n + ?b n)" for n
      unfolding x y by (simp add: algebra_simps)
  qed
  moreover have "gak_grid sigma s1 s2 (Suc i) (Suc j) = ?c * ?B / (1 - ?c)"
  proof -
    have "gak_grid sigma s1 s2 (Suc i) (Suc j) = ?B * local_kernel sigma (s1 ! i) (s2 ! j)"
      by simp
    also have "\<dots> = ?B * (?c / (1 - ?c))"
      by (simp only: local_kernel_chi [OF len])
    also have "\<dots> = ?c * ?B / (1 - ?c)" by simp
    finally show ?thesis .
  qed
  ultimately show ?case by (simp only:)
qed

lemma sqeuclidean_commute: "sqeuclidean a b = sqeuclidean b a"
proof (induction a arbitrary: b)
  case Nil
  then show ?case by (simp add: sqeuclidean_def)
next
  case (Cons s a)
  then show ?case by (cases b) (simp_all add: sqeuclidean_def power2_commute)
qed

lemma local_kernel_commute: "local_kernel sigma a b = local_kernel sigma b a"
  by (simp add: local_kernel_def sqeuclidean_commute [of a b])

lemma gak_grid_commute: "gak_grid sigma x y i j = gak_grid sigma y x j i"
  by (induction sigma x y i j rule: gak_grid.induct)
     (simp_all add: local_kernel_commute add.commute add.left_commute)

lemma raw_gak_commute: "raw_gak x y sigma = raw_gak y x sigma"
  by (simp add: raw_gak_def gak_grid_commute [of sigma x y])

lemma raw_gak_limit:
  assumes "list_all (\<lambda>p. length p = d) x" "list_all (\<lambda>p. length p = d) y"
  shows "(\<lambda>n. \<Sum>l<n. stretch_sum sigma l x y) \<longlonglongrightarrow> raw_gak x y sigma"
  using stretch_sums_gak_grid [OF assms, of "length x" "length y" sigma]
  by (simp add: sums_def raw_gak_def)

text \<open>
  The Cauchy-Schwarz inequality of the raw kernel: the quadratic forms of the partial sums
  of the stretch sums are non-negative, and so is their limit.
\<close>

lemma raw_gak_cauchy_schwarz:
  assumes x: "list_all (\<lambda>p. length p = d) x" and y: "list_all (\<lambda>p. length p = d) y"
    and ne: "y \<noteq> []"
  shows "(raw_gak x y sigma)\<^sup>2 \<le> raw_gak x x sigma * raw_gak y y sigma"
proof -
  define P where "P n u v = (\<Sum>l<n. stretch_sum sigma l u v)" for n u v
  define kxx kxy kyy where "kxx = raw_gak x x sigma" and "kxy = raw_gak x y sigma"
    and "kyy = raw_gak y y sigma"
  have psdP: "psd (P n)" for n
    unfolding P_def by (intro psd_sum psd_stretch_sum)
  have kyx: "raw_gak y x sigma = kxy"
    unfolding kxy_def by (rule raw_gak_commute)
  have l1: "(\<lambda>n. P n x x) \<longlonglongrightarrow> kxx"
    unfolding P_def kxx_def by (rule raw_gak_limit [OF x x])
  have l2: "(\<lambda>n. P n x y) \<longlonglongrightarrow> kxy"
    unfolding P_def kxy_def by (rule raw_gak_limit [OF x y])
  have "(\<lambda>n. P n y x) \<longlonglongrightarrow> raw_gak y x sigma"
    unfolding P_def by (rule raw_gak_limit [OF y x])
  then have l3: "(\<lambda>n. P n y x) \<longlonglongrightarrow> kxy" by (simp only: kyx)
  have l4: "(\<lambda>n. P n y y) \<longlonglongrightarrow> kyy"
    unfolding P_def kyy_def by (rule raw_gak_limit [OF y y])
  note lim = l1 l2 l3 l4
  have q: "0 \<le> c * c * kxx + c * e * kxy + (e * c * kxy + e * e * kyy)" for c e
  proof -
    have qf: "quad_form (P n) [(c, x), (e, y)] =
        c * c * P n x x + c * e * P n x y + (e * c * P n y x + e * e * P n y y)" for n
      by (simp add: quad_form_def)
    have "(\<lambda>n. c * c * P n x x + c * e * P n x y + (e * c * P n y x + e * e * P n y y))
        \<longlonglongrightarrow> c * c * kxx + c * e * kxy + (e * c * kxy + e * e * kyy)"
      by (intro tendsto_add tendsto_mult tendsto_const lim)
    then have "(\<lambda>n. quad_form (P n) [(c, x), (e, y)]) \<longlonglongrightarrow>
        c * c * kxx + c * e * kxy + (e * c * kxy + e * e * kyy)"
      by (simp only: qf)
    moreover have "0 \<le> quad_form (P n) [(c, x), (e, y)]" for n
      using psdP [of n] by (simp add: psd_def)
    ultimately show ?thesis by (intro LIMSEQ_le_const) auto
  qed
  have pos: "0 < kyy" unfolding kyy_def by (rule raw_gak_pos [OF ne ne])
  have "0 \<le> kyy * (kxx * kyy - kxy\<^sup>2)"
    using q [of kyy "- kxy"] by (simp add: algebra_simps power2_eq_square)
  then have "0 \<le> kxx * kyy - kxy\<^sup>2"
    using pos by (simp add: zero_le_mult_iff)
  then show ?thesis by (simp add: kxx_def kxy_def kyy_def)
qed

text \<open>
  Claim C5, as amended. For non-empty series of the same feature dimension and \<open>\<sigma> > 0\<close>,
  the normalised kernel \<open>K(s1, s2) / sqrt (K(s1, s1) \<cdot> K(s2, s2))\<close> lies in \<open>(0, 1]\<close>;
  \<^verbatim>\<open>gak\<close> returns it, unless it is at most \<open>1 / 2 ^ 1075\<close>, too small for a positive
  double, and then \<^verbatim>\<open>gak\<close> fails with a \<^verbatim>\<open>NumericalError\<close>; \<^verbatim>\<open>gak(s, s, sigma)\<close> is 1.
\<close>

theorem gak_normalized:
  assumes sigma: "0 < sigma"
    and ne: "npy2d_time_series s1 \<noteq> []" "npy2d_time_series s2 \<noteq> []"
    and dim: "list_all (\<lambda>p. length p = d) (npy2d_time_series s1)"
             "list_all (\<lambda>p. length p = d) (npy2d_time_series s2)"
  shows "(\<exists>v. v = raw_gak (npy2d_time_series s1) (npy2d_time_series s2) sigma /
                  sqrt (raw_gak (npy2d_time_series s1) (npy2d_time_series s1) sigma *
                        raw_gak (npy2d_time_series s2) (npy2d_time_series s2) sigma) \<and>
              0 < v \<and> v \<le> 1 \<and>
              gak s1 s2 sigma = (if v \<le> 1 / 2 ^ 1075 then Inl NumericalError else Inr v)) \<and>
         gak s1 s1 sigma = Inr 1"
proof -
  let ?a = "npy2d_time_series s1" and ?b = "npy2d_time_series s2"
  let ?kab = "raw_gak ?a ?b sigma" and ?kaa = "raw_gak ?a ?a sigma" and ?kbb = "raw_gak ?b ?b sigma"
  have fd: "feature_dim ?a = d" "feature_dim ?b = d"
    using ne dim by (cases ?a; cases ?b; simp add: feature_dim_def)+
  have ok: "shape_ok ?a ?b" "shape_ok ?a ?a"
    using ne fd by (simp_all add: shape_ok_def)
  have pos: "0 < ?kab" "0 < ?kaa" "0 < ?kbb"
    using ne by (simp_all add: raw_gak_pos)
  have cs: "?kab\<^sup>2 \<le> ?kaa * ?kbb"
    by (rule raw_gak_cauchy_schwarz [OF dim ne(2)])
  have root: "0 < sqrt (?kaa * ?kbb)" using pos by simp
  have "?kab \<le> sqrt (?kaa * ?kbb)" using cs by (rule real_le_rsqrt)
  then have le: "?kab / sqrt (?kaa * ?kbb) \<le> 1" using root by simp
  have gt: "0 < ?kab / sqrt (?kaa * ?kbb)" using pos root by simp
  have val: "gak s1 s2 sigma =
      (if ?kab / sqrt (?kaa * ?kbb) \<le> 1 / 2 ^ 1075 then Inl NumericalError
       else Inr (?kab / sqrt (?kaa * ?kbb)))"
    unfolding gak_def by (rule cygak_normalized_gak_cases [OF sigma ok(1)])
  have one: "?kaa / sqrt (?kaa * ?kaa) = 1" using pos by simp
  have "gak s1 s1 sigma =
      (if ?kaa / sqrt (?kaa * ?kaa) \<le> 1 / 2 ^ 1075 then Inl NumericalError
       else Inr (?kaa / sqrt (?kaa * ?kaa)))"
    unfolding gak_def by (rule cygak_normalized_gak_cases [OF sigma ok(2)])
  then have "gak s1 s1 sigma =
      (if (1::real) \<le> 1 / 2 ^ 1075 then Inl NumericalError else Inr 1)"
    by (simp only: one)
  from guarded_value [OF this one_not_underflow]
  have self: "gak s1 s1 sigma = Inr 1" .
  show ?thesis using val le gt self by blast
qed

text \<open>
  The hypotheses of C5 hold for the series of the first example of the docstring of
  \<^verbatim>\<open>gak\<close>, where the value is \<^verbatim>\<open>0.839...\<close>.
\<close>

theorem gak_normalized_witness:
  "(0::real) < 2 \<and>
   npy2d_time_series (Flat [1, 2, 3]) \<noteq> [] \<and> npy2d_time_series (Flat [1, 2, 2, 3]) \<noteq> [] \<and>
   list_all (\<lambda>p. length p = 1) (npy2d_time_series (Flat [1, 2, 3])) \<and>
   list_all (\<lambda>p. length p = 1) (npy2d_time_series (Flat [1, 2, 2, 3])) \<and>
   (\<exists>v. v = raw_gak [[1], [2], [3]] [[1], [2], [2], [3]] 2 /
              sqrt (raw_gak [[1], [2], [3]] [[1], [2], [3]] 2 *
                    raw_gak [[1], [2], [2], [3]] [[1], [2], [2], [3]] 2) \<and>
        0 < v \<and> v \<le> 1 \<and> 839 / 1000 \<le> v \<and> v < 840 / 1000 \<and>
        gak (Flat [1, 2, 3]) (Flat [1, 2, 2, 3]) 2 = Inr v) \<and>
   gak (Flat [1, 2, 3]) (Flat [1, 2, 3]) 2 = Inr 1"
proof -
  have h1: "(0::real) < 2" by simp
  have h2: "npy2d_time_series (Flat [1, 2, 3]) \<noteq> []" "npy2d_time_series (Flat [1, 2, 2, 3]) \<noteq> []"
    by simp_all
  have h3: "list_all (\<lambda>p. length p = 1) (npy2d_time_series (Flat [1, 2, 3]))"
    "list_all (\<lambda>p. length p = 1) (npy2d_time_series (Flat [1, 2, 2, 3]))"
    by simp_all
  have n: "npy2d_time_series (Flat [1, 2, 3]) = [[1], [2], [3]]"
    "npy2d_time_series (Flat [1, 2, 2, 3]) = [[1], [2], [2], [3]]"
    by simp_all
  from gak_normalized [OF h1 h2 h3, unfolded n]
  have t: "0 < raw_gak [[1], [2], [3]] [[1], [2], [2], [3]] 2 /
              sqrt (raw_gak [[1], [2], [3]] [[1], [2], [3]] 2 *
                    raw_gak [[1], [2], [2], [3]] [[1], [2], [2], [3]] 2)"
    "raw_gak [[1], [2], [3]] [[1], [2], [2], [3]] 2 /
              sqrt (raw_gak [[1], [2], [3]] [[1], [2], [3]] 2 *
                    raw_gak [[1], [2], [2], [3]] [[1], [2], [2], [3]] 2) \<le> 1"
    "gak (Flat [1, 2, 3]) (Flat [1, 2, 3]) 2 = Inr 1"
    by blast+
  from h1 h2 h3 t gak_docstring show ?thesis by blast
qed

text \<open>
  Claim C5, counterexample. The specification has \<^verbatim>\<open>gak\<close> return a float in \<open>(0, 1]\<close>
  for every pair of valid series. For the series \<open>[0]\<close> and \<open>[100]\<close> and \<open>\<sigma> = 1\<close> the
  normalised kernel is \<open>e / (2 - e)\<close> with \<open>e = exp (- 5000)\<close>, below \<open>1 / 2 ^ 1075\<close>: no
  positive double, and \<^verbatim>\<open>gak\<close> fails with a \<^verbatim>\<open>NumericalError\<close>.
\<close>

theorem gak_underflow: "gak (Flat [0]) (Flat [100]) 1 = Inl NumericalError"
proof -
  let ?e = "exp (- 5000 :: real)"
  have k: "raw_gak [[0]] [[100]] 1 = ?e / (2 - ?e)"
    by (simp add: raw_gak_def local_kernel_def sqeuclidean_def)
  have one: "raw_gak [[0]] [[0]] 1 = 1" "raw_gak [[100]] [[100]] 1 = 1"
    by (simp_all add: raw_gak_def local_kernel_def sqeuclidean_def)
  have "(2::real) ^ 1075 \<le> 2 ^ 5000" by (rule power_increasing) simp_all
  also have "\<dots> \<le> exp (real 5000)" by (rule exp_ge_power2)
  finally have big: "(2::real) ^ 1075 \<le> exp 5000" by simp
  have "?e = 1 / exp 5000" by (simp add: exp_minus field_simps)
  also have "\<dots> \<le> 1 / 2 ^ 1075" using big by (intro divide_left_mono) simp_all
  finally have small: "?e \<le> 1 / 2 ^ 1075" .
  have "?e \<le> 1" by simp
  then have "?e / (2 - ?e) \<le> ?e" by (intro kappa_le) simp_all
  then have "?e / (2 - ?e) \<le> 1 / 2 ^ 1075" using small by linarith
  then have u: "raw_gak [[0]] [[100]] 1 / sqrt (raw_gak [[0]] [[0]] 1 * raw_gak [[100]] [[100]] 1)
                  \<le> 1 / 2 ^ 1075"
    by (simp only: k one mult_1 real_sqrt_one div_by_1)
  have "cygak_normalized_gak [[0]] [[100]] 1 =
      (if raw_gak [[0]] [[100]] 1 / sqrt (raw_gak [[0]] [[0]] 1 * raw_gak [[100]] [[100]] 1)
            \<le> 1 / 2 ^ 1075
       then Inl NumericalError
       else Inr (raw_gak [[0]] [[100]] 1 / sqrt (raw_gak [[0]] [[0]] 1 * raw_gak [[100]] [[100]] 1)))"
    by (rule cygak_normalized_gak_cases) (simp_all add: shape_ok_def feature_dim_def)
  then have "cygak_normalized_gak [[0]] [[100]] 1 = Inl NumericalError"
    using u by (simp only: if_True)
  then show ?thesis by (simp add: gak_def)
qed

end
